theory Spec2Isabelle
  imports Complex_Main
begin

section \<open>Ball-kick analysis (utils.py)\<close>

text \<open>
  In the analysis of the ball Python floats are idealised as the reals: arithmetic is
  exact, there is no infinity, NaN or signed zero. The score of the leaderboard is
  computed in binary64 arithmetic, modelled in the second part. Python's unbounded
  integers are \<open>int\<close>.
\<close>

subsection \<open>Data model\<close>

type_synonym position = "real \<times> real"

text \<open>The dataclass \<open>BallKick\<close>; \<open>kick_type\<close> is a Python string, "up" or "ground".\<close>

record BallKick =
  frame_number :: int
  timestamp :: real
  ball_position :: position
  kick_type :: string
  confidence :: real

text \<open>The dataclass \<open>JugglingSeries\<close>.\<close>

record JugglingSeries =
  start_frame :: int
  end_frame :: int
  kicks_count :: int
  duration :: real

text \<open>
  The mutable attributes of \<open>BallKickAnalyzer\<close>. The detection models and the
  threshold attributes are set once in \<open>__init__\<close> and never assigned again; the thresholds
  are the constants below.
\<close>

record BallKickAnalyzer =
  ball_history :: "position list"
  velocity_history :: "position list"
  kicks :: "BallKick list"
  current_series_kicks :: int
  in_juggling_series :: bool
  last_ball_position :: "position option"

definition kick_distance_threshold :: real where
  "kick_distance_threshold = 400"

definition velocity_threshold :: real where
  "velocity_threshold = 8"

definition min_kick_interval :: int where
  "min_kick_interval = 8"

definition ground_threshold :: real where
  "ground_threshold = 85 / 100"

definition trajectory_change_threshold :: real where
  "trajectory_change_threshold = 25"

definition velocity_history_size :: nat where
  "velocity_history_size = 5"

definition min_confidence_threshold :: real where
  "min_confidence_threshold = 6 / 10"

definition frame_skip :: int where
  "frame_skip = 4"

definition ball_movement_threshold :: real where
  "ball_movement_threshold = 10"

text \<open>The state \<open>__init__\<close> builds.\<close>

definition init_analyzer :: BallKickAnalyzer where
  "init_analyzer =
     \<lparr>ball_history = [], velocity_history = [], kicks = [],
      current_series_kicks = 0, in_juggling_series = False,
      last_ball_position = None\<rparr>"

subsection \<open>Geometry\<close>

text \<open>\<open>scipy.spatial.distance.euclidean\<close> on two points of the plane.\<close>

definition euclidean :: "position \<Rightarrow> position \<Rightarrow> real" where
  "euclidean p q = sqrt ((fst p - fst q)\<^sup>2 + (snd p - snd q)\<^sup>2)"

text \<open>\<open>math.atan2(y, x)\<close>, in radians, and \<open>math.degrees\<close>.\<close>

definition atan2 :: "real \<Rightarrow> real \<Rightarrow> real" where
  "atan2 y x =
     (if 0 < x then arctan (y / x)
      else if x < 0 then (if 0 \<le> y then arctan (y / x) + pi else arctan (y / x) - pi)
      else if 0 < y then pi / 2
      else if y < 0 then - (pi / 2)
      else 0)"

definition degrees :: "real \<Rightarrow> real" where
  "degrees r = r * 180 / pi"

text \<open>
  \<open>calculate_ball_velocity\<close>: the difference of the last two positions of the history,
  \<open>(0.0, 0.0)\<close> when there are fewer than two.
\<close>

definition calculate_ball_velocity :: "BallKickAnalyzer \<Rightarrow> position" where
  "calculate_ball_velocity a =
     (if length (ball_history a) < 2 then (0, 0)
      else
        let pos1 = ball_history a ! (length (ball_history a) - 2);
            pos2 = ball_history a ! (length (ball_history a) - 1);
            velocity_x = fst pos2 - fst pos1;
            velocity_y = snd pos2 - snd pos1
        in (velocity_x, velocity_y))"

text \<open>
  \<open>calculate_trajectory_change\<close>: with fewer than three velocities \<open>0.0\<close>; otherwise the
  absolute difference of the directions of the last two velocities, folded into
  \<open>[0, 180]\<close>. The third-last velocity is read and not used.
\<close>

definition calculate_trajectory_change :: "BallKickAnalyzer \<Rightarrow> real" where
  "calculate_trajectory_change a =
     (if length (velocity_history a) < 3 then 0
      else
        let v2 = velocity_history a ! (length (velocity_history a) - 2);
            v3 = velocity_history a ! (length (velocity_history a) - 1);
            angle1 = degrees (atan2 (snd v2) (fst v2));
            angle2 = degrees (atan2 (snd v3) (fst v3));
            angle_change = \<bar>angle2 - angle1\<bar>
        in if 180 < angle_change then 360 - angle_change else angle_change)"

definition is_ball_near_ground :: "position \<Rightarrow> int \<Rightarrow> bool" where
  "is_ball_near_ground ball_pos frame_height =
     (let ground_y = real_of_int frame_height * ground_threshold
      in ground_y \<le> snd ball_pos)"

subsection \<open>detect_kick\<close>

text \<open>
  The loop over \<open>feet_positions\<close> that keeps the smallest distance and its foot.
  \<open>min_distance\<close> starts as \<open>float('inf')\<close>, here \<open>None\<close>; every distance is below it.
\<close>

fun closest_foot_loop ::
  "position \<Rightarrow> position list \<Rightarrow> real option \<times> position option \<Rightarrow> real option \<times> position option"
where
  "closest_foot_loop ball_pos [] acc = acc"
| "closest_foot_loop ball_pos (foot_pos # rest) (min_distance, closest_foot) =
     (let distance = euclidean ball_pos foot_pos
      in if (case min_distance of None \<Rightarrow> True | Some m \<Rightarrow> distance < m)
         then closest_foot_loop ball_pos rest (Some distance, Some foot_pos)
         else closest_foot_loop ball_pos rest (min_distance, closest_foot))"

text \<open>\<open>min_distance < self.kick_distance_threshold\<close>, false for the initial infinity.\<close>

definition within_kick_distance :: "real option \<Rightarrow> bool" where
  "within_kick_distance min_distance =
     (case min_distance of None \<Rightarrow> False | Some m \<Rightarrow> m < kick_distance_threshold)"

text \<open>The check for the touch of the ground that ends \<open>detect_kick\<close>.\<close>

definition ground_check ::
  "BallKickAnalyzer \<Rightarrow> position \<Rightarrow> int \<Rightarrow> real \<Rightarrow> int \<Rightarrow> BallKick option \<times> BallKickAnalyzer"
where
  "ground_check a ball_pos frame_no ts frame_height =
     (if is_ball_near_ground ball_pos frame_height \<and> in_juggling_series a
      then (Some \<lparr>frame_number = frame_no, timestamp = ts, ball_position = ball_pos,
                  kick_type = ''ground'', confidence = 9 / 10\<rparr>,
            a\<lparr>in_juggling_series := False\<rparr>)
      else (None, a))"

text \<open>
  \<open>detect_kick\<close> returns the kick, if any, and the analyzer with the series flag and
  counter it has assigned. The caller appends the kick to \<open>kicks\<close>.
\<close>

definition detect_kick ::
  "BallKickAnalyzer \<Rightarrow> position \<Rightarrow> position list \<Rightarrow> int \<Rightarrow> real \<Rightarrow> int
     \<Rightarrow> BallKick option \<times> BallKickAnalyzer"
where
  "detect_kick a ball_pos feet_positions frame_no ts frame_height =
     (let (min_distance, closest_foot) = closest_foot_loop ball_pos feet_positions (None, None)
      in
      if (within_kick_distance min_distance \<and> closest_foot \<noteq> None) \<or> 0 < length feet_positions
      then
        let (velocity_x, velocity_y) = calculate_ball_velocity a
        in
        if kicks a \<noteq> [] \<and> frame_no - frame_number (last (kicks a)) < min_kick_interval
        then (None, a)
        else
          let trajectory_change = calculate_trajectory_change a
          in
          if trajectory_change_threshold < trajectory_change
             \<and> velocity_threshold < \<bar>velocity_y\<bar> \<and> velocity_y < 0
          then
            let distance_bonus = (if within_kick_distance min_distance then 1 else 7 / 10);
                a1 = (if \<not> in_juggling_series a
                      then a\<lparr>in_juggling_series := True, current_series_kicks := 0\<rparr>
                      else a);
                a2 = a1\<lparr>current_series_kicks := current_series_kicks a1 + 1\<rparr>;
                trajectory_score = min 1 (trajectory_change / 45);
                velocity_score = min 1 (\<bar>velocity_y\<bar> / 20);
                distance_score = (if within_kick_distance min_distance then 1 else 1 / 2);
                conf = (trajectory_score * (4 / 10) + velocity_score * (4 / 10)
                        + distance_score * (2 / 10)) * distance_bonus
            in
            if min_confidence_threshold \<le> conf
            then (Some \<lparr>frame_number = frame_no, timestamp = ts, ball_position = ball_pos,
                        kick_type = ''up'', confidence = conf\<rparr>, a2)
            else (None, a2)
          else ground_check a ball_pos frame_no ts frame_height
      else ground_check a ball_pos frame_no ts frame_height)"

subsection \<open>The frame loop of analyze_video\<close>

text \<open>
  What the excluded collaborators return on one decoded frame: \<open>detect_ball\<close> gives
  \<open>(x, y, confidence)\<close> or \<open>None\<close>, \<open>detect_feet\<close> a list of points.
\<close>

record Frame =
  ball_detection :: "(real \<times> real \<times> real) option"
  feet_detection :: "position list"

text \<open>
  The capture: \<open>CAP_PROP_FPS\<close>, \<open>CAP_PROP_FRAME_COUNT\<close>, \<open>CAP_PROP_FRAME_HEIGHT\<close>
  and the frames that \<open>cap.read()\<close> delivers before it reports the end.
\<close>

record Video =
  cap_fps :: real
  cap_frame_count :: int
  cap_frame_height :: int
  cap_frames :: "Frame list"

text \<open>
  Lines 300 to 313: the position becomes the last position and enters the history
  (at most 10 entries), the velocity enters its history (at most
  \<open>velocity_history_size\<close> entries).
\<close>

definition track_ball :: "BallKickAnalyzer \<Rightarrow> position \<Rightarrow> BallKickAnalyzer" where
  "track_ball a ball_pos =
     (let a1 = a\<lparr>last_ball_position := Some ball_pos,
                  ball_history := ball_history a @ [ball_pos]\<rparr>;
          a2 = (if 10 < length (ball_history a1)
                then a1\<lparr>ball_history := tl (ball_history a1)\<rparr> else a1);
          velocity = calculate_ball_velocity a2;
          a3 = a2\<lparr>velocity_history := velocity_history a2 @ [velocity]\<rparr>
      in if velocity_history_size < length (velocity_history a3)
         then a3\<lparr>velocity_history := tl (velocity_history a3)\<rparr> else a3)"

text \<open>
  \<open>if self.last_ball_position:\<close> and the movement test under it: true when a last
  position exists and the ball is closer to it than \<open>ball_movement_threshold\<close>.
\<close>

definition slow_movement :: "BallKickAnalyzer \<Rightarrow> position \<Rightarrow> bool" where
  "slow_movement a ball_pos =
     (case last_ball_position a of
        None \<Rightarrow> False
      | Some p \<Rightarrow>
          sqrt ((fst ball_pos - fst p)\<^sup>2 + (snd ball_pos - snd p)\<^sup>2)
            < ball_movement_threshold)"

text \<open>One pass through the body of the \<open>while\<close> loop, for the frame numbered \<open>n\<close>.\<close>

definition process_frame ::
  "BallKickAnalyzer \<Rightarrow> real \<Rightarrow> int \<Rightarrow> int \<Rightarrow> Frame \<Rightarrow> BallKickAnalyzer"
where
  "process_frame a fps frame_height n fr =
     (let ts = real_of_int n / fps
      in
      if n mod frame_skip \<noteq> 0 then a
      else
        case ball_detection fr of
          None \<Rightarrow> a
        | Some (x, y, c) \<Rightarrow>
            let ball_pos = (x, y)
            in
            if slow_movement a ball_pos then a
            else
              let a1 = track_ball a ball_pos;
                  feet_positions = feet_detection fr
              in
              if 3 \<le> length (velocity_history a1)
              then
                case detect_kick a1 ball_pos feet_positions n ts frame_height of
                  (Some kick, a2) \<Rightarrow> a2\<lparr>kicks := kicks a2 @ [kick]\<rparr>
                | (None, a2) \<Rightarrow> a2
              else a1)"

fun frames_loop ::
  "BallKickAnalyzer \<Rightarrow> real \<Rightarrow> int \<Rightarrow> int \<Rightarrow> Frame list \<Rightarrow> BallKickAnalyzer"
where
  "frames_loop a fps frame_height n [] = a"
| "frames_loop a fps frame_height n (fr # rest) =
     frames_loop (process_frame a fps frame_height n fr) fps frame_height (n + 1) rest"

text \<open>
  The assignments of lines 264 to 268 that open a run. \<open>last_ball_position\<close> is not
  among them.
\<close>

definition reset_run :: "BallKickAnalyzer \<Rightarrow> BallKickAnalyzer" where
  "reset_run a =
     a\<lparr>ball_history := [], velocity_history := [], kicks := [],
       current_series_kicks := 0, in_juggling_series := False\<rparr>"

subsection \<open>The series of a run\<close>

datatype py_error = TypeError | IndexError

text \<open>
  The loop of \<open>_analyze_juggling_series\<close> over the kicks, with its four local variables.
  Subtracting \<open>None\<close> from a timestamp would raise \<open>TypeError\<close>.
\<close>

fun series_loop ::
  "BallKick list \<Rightarrow> JugglingSeries list \<Rightarrow> int option \<Rightarrow> int \<Rightarrow> real option
     \<Rightarrow> py_error + JugglingSeries list"
where
  "series_loop [] series current_series_start current_kicks current_series_start_timestamp =
     Inr series"
| "series_loop (kick # rest) series current_series_start current_kicks
       current_series_start_timestamp =
     (if kick_type kick = ''up''
      then
        (if current_series_start = None
         then series_loop rest series (Some (frame_number kick)) (current_kicks + 1)
                (Some (timestamp kick))
         else series_loop rest series current_series_start (current_kicks + 1)
                current_series_start_timestamp)
      else
        case (kick_type kick = ''ground'', current_series_start) of
          (True, Some start) \<Rightarrow>
            (case current_series_start_timestamp of
               None \<Rightarrow> Inl TypeError
             | Some t0 \<Rightarrow>
                 series_loop rest
                   (series @ [\<lparr>start_frame = start, end_frame = frame_number kick,
                                kicks_count = current_kicks,
                                duration = timestamp kick - t0\<rparr>])
                   None 0 None)
        | _ \<Rightarrow> series_loop rest series current_series_start current_kicks
                 current_series_start_timestamp)"

text \<open>\<open>_analyze_juggling_series\<close>.\<close>

definition analyze_juggling_series :: "BallKickAnalyzer \<Rightarrow> py_error + JugglingSeries list" where
  "analyze_juggling_series a = series_loop (kicks a) [] None 0 None"

text \<open>
  The dataclass \<open>VideoAnalysis\<close>, without the formatted \<open>summary\<close> and the creation
  \<open>timestamp\<close>.
\<close>

record VideoAnalysis =
  va_video_name :: string
  va_total_kicks :: int
  va_total_series :: int
  va_kicks :: "BallKick list"
  va_series :: "JugglingSeries list"
  va_fps :: real
  va_duration :: real
  va_processing_time :: real

text \<open>
  \<open>analyze_video\<close>; the name of the file and the measured processing time are inputs.
\<close>

definition analyze_video ::
  "BallKickAnalyzer \<Rightarrow> string \<Rightarrow> Video \<Rightarrow> real
     \<Rightarrow> py_error + (VideoAnalysis \<times> BallKickAnalyzer)"
where
  "analyze_video a name video elapsed =
     (let fps = (if cap_fps video \<le> 0 then 30 else cap_fps video);
          total_frames = cap_frame_count video;
          dur = real_of_int total_frames / fps;
          frame_height = cap_frame_height video;
          a1 = frames_loop (reset_run a) fps frame_height 0 (cap_frames video)
      in
      case analyze_juggling_series a1 of
        Inl e \<Rightarrow> Inl e
      | Inr series \<Rightarrow>
          let total = int (length (filter (\<lambda>k. kick_type k = ''up'') (kicks a1)))
          in Inr (\<lparr>va_video_name = name, va_total_kicks = total,
                    va_total_series = int (length series), va_kicks = kicks a1,
                    va_series = series, va_fps = fps, va_duration = dur,
                    va_processing_time = elapsed\<rparr>, a1))"

section \<open>The top results (top_results.py, api_server.py)\<close>

record TopResult =
  video_name :: string
  total_kicks :: int
  total_series :: int
  best_series_kicks :: int
  best_series_duration :: real
  processing_time :: real
  result_timestamp :: string
  score :: real

text \<open>What \<open>_save_results\<close> writes to the storage file.\<close>

record StoredResults =
  stored_max_results :: int
  stored_last_updated :: string
  stored_results :: "TopResult list"

text \<open>
  \<open>TopResultsManager\<close>: its list, its bound, and the documents it has written to the
  storage file, oldest first.
\<close>

record TopResultsManager =
  results :: "TopResult list"
  max_results :: int
  writes :: "StoredResults list"

text \<open>
  \<open>list.sort(key=lambda x: x.score, reverse=True)\<close>: a stable sort by descending
  score. \<open>sort_key\<close> is a stable insertion sort by ascending key.
\<close>

definition sort_results :: "TopResult list \<Rightarrow> TopResult list" where
  "sort_results rs = sort_key (\<lambda>x. - score x) rs"

definition save_results :: "TopResultsManager \<Rightarrow> string \<Rightarrow> TopResultsManager" where
  "save_results m now =
     m\<lparr>writes := writes m @
          [\<lparr>stored_max_results = max_results m, stored_last_updated = now,
            stored_results = results m\<rparr>]\<rparr>"

text \<open>
  The storage file as \<open>_load_results\<close> finds it: absent, unreadable (any exception of
  the parse or of the construction of an entry), or a list of entries.
\<close>

datatype storage = Missing | Unreadable | Document "TopResult list"

text \<open>\<open>__init__\<close> with \<open>_load_results\<close>.\<close>

definition load_manager :: "storage \<Rightarrow> int \<Rightarrow> TopResultsManager" where
  "load_manager file bound =
     (case file of
        Missing \<Rightarrow> \<lparr>results = [], max_results = bound, writes = []\<rparr>
      | Unreadable \<Rightarrow> \<lparr>results = [], max_results = bound, writes = []\<rparr>
      | Document rs \<Rightarrow> \<lparr>results = sort_results rs, max_results = bound, writes = []\<rparr>)"

subsection \<open>Binary64 arithmetic\<close>

text \<open>The nearest integer, a tie going to the even one.\<close>

definition round_half_even :: "real \<Rightarrow> int" where
  "round_half_even y =
     (let f = \<lfloor>y\<rfloor>; d = y - real_of_int f
      in if d < 1 / 2 then f
         else if 1 / 2 < d then f + 1
         else if even f then f else f + 1)"

text \<open>
  The binary64 number nearest to a real, a tie going to the even significand: 53
  significant bits at the binary exponent of the argument. The range of the exponent is
  not bounded, so overflow to infinity and subnormal numbers are left out.
\<close>

definition double_round :: "real \<Rightarrow> real" where
  "double_round x =
     (if x = 0 then 0
      else
        let e = \<lfloor>log 2 \<bar>x\<bar>\<rfloor> - 52
        in real_of_int (round_half_even (x / 2 powr real_of_int e)) * 2 powr real_of_int e)"

text \<open>
  The conversion of a Python integer to a float and the four operations on floats, each
  rounding its exact result once.
\<close>

definition double_of_int :: "int \<Rightarrow> real" where
  "double_of_int k = double_round (real_of_int k)"

definition fadd :: "real \<Rightarrow> real \<Rightarrow> real" where
  "fadd x y = double_round (x + y)"

definition fsub :: "real \<Rightarrow> real \<Rightarrow> real" where
  "fsub x y = double_round (x - y)"

definition fmul :: "real \<Rightarrow> real \<Rightarrow> real" where
  "fmul x y = double_round (x * y)"

definition fdiv :: "real \<Rightarrow> real \<Rightarrow> real" where
  "fdiv x y = double_round (x / y)"

text \<open>
  Python's \<open>round(x, 2)\<close> on a float: the multiple of \<open>0.01\<close> nearest to the exact
  value of \<open>x\<close>, a tie going to the even one, and of that the nearest float.
\<close>

definition py_round2 :: "real \<Rightarrow> real" where
  "py_round2 x = double_round (real_of_int (round_half_even (x * 100)) / 100)"

subsection \<open>The score and the leaderboard\<close>

text \<open>
  \<open>_calculate_score\<close>; it reads nothing of the manager. \<open>total_kicks\<close> and
  \<open>best_series_kicks\<close> are integers, \<open>best_series_duration\<close> and
  \<open>processing_time\<close> floats, and \<open>0.1\<close> is the float nearest to one tenth.
  \<open>max(processing_time, 1)\<close> is at least 1, so the division never fails.
\<close>

definition calculate_score :: "int \<Rightarrow> int \<Rightarrow> int \<Rightarrow> real \<Rightarrow> real \<Rightarrow> real" where
  "calculate_score tk ts bsk bsd pt =
     (let base_score = tk * 10;
          series_bonus = fadd (double_of_int (bsk * 20)) (fmul bsd 5);
          efficiency_bonus = fmul (fdiv (double_of_int tk) (max pt 1)) 50;
          time_penalty = fmul pt (double_round (1 / 10))
      in py_round2
           (fsub (fadd (fadd (double_of_int base_score) series_bonus) efficiency_bonus)
              time_penalty))"

text \<open>
  \<open>add_result\<close>. \<open>now\<close> is the clock reading stored in the entry, \<open>now_saved\<close> the one
  \<open>_save_results\<close> stores. Reading \<open>self.results[-1]\<close> of an empty list raises
  \<open>IndexError\<close>.
\<close>

definition add_result ::
  "TopResultsManager \<Rightarrow> string \<Rightarrow> string \<Rightarrow> string \<Rightarrow> int \<Rightarrow> int \<Rightarrow> int \<Rightarrow> real \<Rightarrow> real
     \<Rightarrow> py_error + (bool \<times> TopResultsManager)"
where
  "add_result m now now_saved name tk ts bsk bsd pt =
     (let sc = calculate_score tk ts bsk bsd pt;
          new_result = \<lparr>video_name = name, total_kicks = tk, total_series = ts,
                        best_series_kicks = bsk, best_series_duration = bsd,
                        processing_time = pt, result_timestamp = now, score = sc\<rparr>
      in
      if int (length (results m)) < max_results m
      then Inr (True,
                save_results (m\<lparr>results := sort_results (results m @ [new_result])\<rparr>) now_saved)
      else if results m = [] then Inl IndexError
      else if score (last (results m)) < sc
      then Inr (True,
                save_results
                  (m\<lparr>results := sort_results (butlast (results m) @ [new_result])\<rparr>) now_saved)
      else Inr (False, m))"

text \<open>
  \<open>self.results[:limit]\<close>: a negative bound counts from the end.
\<close>

definition slice_to :: "'a list \<Rightarrow> int \<Rightarrow> 'a list" where
  "slice_to xs n = (if 0 \<le> n then take (nat n) xs else take (length xs - nat (- n)) xs)"

definition get_top_results :: "TopResultsManager \<Rightarrow> int option \<Rightarrow> TopResult list" where
  "get_top_results m limit =
     (let lim = (case limit of None \<Rightarrow> max_results m | Some n \<Rightarrow> n)
      in slice_to (results m) lim)"

text \<open>
  The handler of \<open>GET /results\<close>: an error response with its status code, or the
  entries it reports. \<open>limit\<close> is the query parameter, \<open>None\<close> when it is absent or not an
  integer.
\<close>

datatype api_response = error_response nat | success_response "TopResult list"

definition get_results :: "TopResultsManager \<Rightarrow> int option \<Rightarrow> api_response" where
  "get_results m limit =
     (if (case limit of None \<Rightarrow> False | Some n \<Rightarrow> n \<noteq> 0 \<and> (n < 1 \<or> 30 < n))
      then error_response 400
      else success_response (get_top_results m limit))"

section \<open>Notions used in the statements\<close>

text \<open>The entry that \<open>add_result\<close> builds from its arguments.\<close>

definition new_entry :: "string \<Rightarrow> string \<Rightarrow> int \<Rightarrow> int \<Rightarrow> int \<Rightarrow> real \<Rightarrow> real \<Rightarrow> TopResult" where
  "new_entry now name tk ts bsk bsd pt =
     \<lparr>video_name = name, total_kicks = tk, total_series = ts, best_series_kicks = bsk,
      best_series_duration = bsd, processing_time = pt, result_timestamp = now,
      score = calculate_score tk ts bsk bsd pt\<rparr>"

text \<open>
  The score as the specification writes it, \<open>round(total_kicks * 10 + best_series_kicks
  * 20 + best_series_duration * 5 + (total_kicks / max(processing_time, 1)) * 50 -
  processing_time * 0.1, 2)\<close>, read in two ways: as a Python expression, evaluated in
  floats from left to right, and as a formula of exact arithmetic.
\<close>

definition spec_score :: "int \<Rightarrow> int \<Rightarrow> real \<Rightarrow> real \<Rightarrow> real" where
  "spec_score tk bsk bsd pt =
     py_round2
       (fsub
          (fadd (fadd (double_of_int (tk * 10 + bsk * 20)) (fmul bsd 5))
             (fmul (fdiv (double_of_int tk) (max pt 1)) 50))
          (fmul pt (double_round (1 / 10))))"

definition exact_score :: "int \<Rightarrow> int \<Rightarrow> real \<Rightarrow> real \<Rightarrow> real" where
  "exact_score tk bsk bsd pt =
     real_of_int
       (round_half_even
          ((real_of_int tk * 10 + real_of_int bsk * 20 + bsd * 5
            + (real_of_int tk / max pt 1) * 50 - pt * (1 / 10)) * 100)) / 100"

text \<open>The float nearest to \<open>10.707\<close>.\<close>

definition d10707 :: real where
  "d10707 = 1506876287820497 / 140737488355328"

text \<open>Sorted by descending score.\<close>

definition sorted_desc :: "TopResult list \<Rightarrow> bool" where
  "sorted_desc rs = sorted_wrt (\<lambda>x y. score y \<le> score x) rs"

text \<open>
  The managers a process can hold after it constructed one with the bound \<open>bound\<close>
  over the storage file \<open>stored\<close>: that manager, and the manager after any completed
  \<open>add_result\<close> call.
\<close>

inductive reachable :: "storage \<Rightarrow> int \<Rightarrow> TopResultsManager \<Rightarrow> bool" where
  loaded: "reachable stored bound (load_manager stored bound)"
| added: "reachable stored bound m \<Longrightarrow>
      add_result m now now_saved name tk ts bsk bsd pt = Inr (b, m') \<Longrightarrow>
      reachable stored bound m'"

text \<open>A storage file of three entries, with the scores 100, 50 and 25.\<close>

definition long_file :: storage where
  "long_file =
     Document [new_entry ''t0'' ''a.mp4'' 0 0 0 20 0, new_entry ''t1'' ''b.mp4'' 0 0 0 10 0,
               new_entry ''t4'' ''d.mp4'' 0 0 0 5 0]"

text \<open>
  The leaderboard of the specification's example: bound 2, scores 100 and 50.
\<close>

definition example_board :: TopResultsManager where
  "example_board =
     \<lparr>results = [new_entry ''t0'' ''a.mp4'' 0 0 0 20 0, new_entry ''t1'' ''b.mp4'' 0 0 0 10 0],
      max_results = 2, writes = []\<rparr>"

section \<open>Notions used in the statements about the detector\<close>

text \<open>
  The conditions under which \<open>detect_kick\<close> reaches the branch of the upward kick: a
  foot was detected, the last kick is at least \<open>min_kick_interval\<close> frames back, and the
  motion test of lines 200 to 202 holds.
\<close>

definition debounce_blocks :: "BallKickAnalyzer \<Rightarrow> int \<Rightarrow> bool" where
  "debounce_blocks a frame_no \<longleftrightarrow>
     kicks a \<noteq> [] \<and> frame_no - frame_number (last (kicks a)) < min_kick_interval"

definition motion_test :: "BallKickAnalyzer \<Rightarrow> bool" where
  "motion_test a \<longleftrightarrow>
     trajectory_change_threshold < calculate_trajectory_change a
     \<and> velocity_threshold < \<bar>snd (calculate_ball_velocity a)\<bar>
     \<and> snd (calculate_ball_velocity a) < 0"

text \<open>The confidence of lines 205 to 219, for a smallest foot distance \<open>d\<close>.\<close>

definition up_confidence :: "BallKickAnalyzer \<Rightarrow> real \<Rightarrow> real" where
  "up_confidence a d =
     (min 1 (calculate_trajectory_change a / 45) * (4 / 10)
      + min 1 (\<bar>snd (calculate_ball_velocity a)\<bar> / 20) * (4 / 10)
      + (if d < kick_distance_threshold then 1 else 1 / 2) * (2 / 10))
     * (if d < kick_distance_threshold then 1 else 7 / 10)"

text \<open>The analyzer after lines 208 to 212.\<close>

definition enter_series :: "BallKickAnalyzer \<Rightarrow> BallKickAnalyzer" where
  "enter_series a =
     a\<lparr>in_juggling_series := True,
       current_series_kicks :=
         (if in_juggling_series a then current_series_kicks a else 0) + 1\<rparr>"

subsection \<open>Example frames and runs\<close>

definition ball_frame :: "real \<Rightarrow> real \<Rightarrow> position list \<Rightarrow> Frame" where
  "ball_frame x y feet = \<lparr>ball_detection = Some (x, y, 9 / 10), feet_detection = feet\<rparr>"

definition no_ball :: Frame where
  "no_ball = \<lparr>ball_detection = None, feet_detection = []\<rparr>"

text \<open>
  The analyzer of a fresh run after the ball was tracked at \<open>(0, 500)\<close>, \<open>(0, 525)\<close> and
  \<open>(0, 515)\<close>: it fell by 25 pixels and then rose by 10.
\<close>

definition bounce_state :: BallKickAnalyzer where
  "bounce_state =
     \<lparr>ball_history = [(0, 500), (0, 525), (0, 515)],
      velocity_history = [(0, 0), (0, 25), (0, - 10)],
      kicks = [], current_series_kicks = 0, in_juggling_series = False,
      last_ball_position = Some (0, 515)\<rparr>"

text \<open>
  Frames 0, 4 and 8 show that bounce, frame 12 the ball at the ground with no foot
  in sight; \<open>feet\<close> are the feet detected on frame 8.
\<close>

definition bounce_video :: "position list \<Rightarrow> Video" where
  "bounce_video feet =
     \<lparr>cap_fps = 30, cap_frame_count = 13, cap_frame_height = 1080,
      cap_frames =
        [ball_frame 0 500 [], no_ball, no_ball, no_ball,
         ball_frame 0 525 [], no_ball, no_ball, no_ball,
         ball_frame 0 515 feet, no_ball, no_ball, no_ball,
         ball_frame 0 1000 []]\<rparr>"

text \<open>
  An analyzer state with a change of trajectory of 30 degrees (from 60 to 90 degrees
  upward) and a vertical velocity of \<open>-10\<close>.
\<close>

definition turn30_state :: BallKickAnalyzer where
  "turn30_state =
     \<lparr>ball_history = [(- 10, 360 + 10 * sqrt 3), (0, 360), (0, 350)],
      velocity_history = [(0, 0), (10, - (10 * sqrt 3)), (0, - 10)],
      kicks = [], current_series_kicks = 0, in_juggling_series = False,
      last_ball_position = Some (0, 350)\<rparr>"

definition up8 :: BallKick where
  "up8 = \<lparr>frame_number = 8, timestamp = 8 / 30, ball_position = (0, 515),
           kick_type = ''up'', confidence = 8 / 10\<rparr>"

definition ground12 :: BallKick where
  "ground12 = \<lparr>frame_number = 12, timestamp = 12 / 30, ball_position = (0, 1000),
                kick_type = ''ground'', confidence = 9 / 10\<rparr>"

text \<open>The analyzer at the end of a run over \<open>bounce_video\<close> that recorded \<open>ks\<close>.\<close>

definition bounce_end :: "BallKick list \<Rightarrow> BallKickAnalyzer" where
  "bounce_end ks =
     \<lparr>ball_history = [(0, 500), (0, 525), (0, 515), (0, 1000)],
      velocity_history = [(0, 0), (0, 25), (0, - 10), (0, 485)],
      kicks = ks, current_series_kicks = 1, in_juggling_series = False,
      last_ball_position = Some (0, 1000)\<rparr>"

subsection \<open>Properties of a list of kicks\<close>

text \<open>
  Every "ground" kick has an "up" kick before it since the last "ground" kick, or since
  the start; \<open>up_seen\<close> tells whether an "up" kick is pending.
\<close>

fun grounds_follow_ups :: "bool \<Rightarrow> BallKick list \<Rightarrow> bool" where
  "grounds_follow_ups up_seen [] = True"
| "grounds_follow_ups up_seen (k # ks) =
     (if kick_type k = ''ground'' then up_seen \<and> grounds_follow_ups False ks
      else if kick_type k = ''up'' then grounds_follow_ups True ks
      else grounds_follow_ups up_seen ks)"

text \<open>Any two kicks of the list are at least \<open>min_kick_interval\<close> frames apart.\<close>

definition kicks_spaced :: "BallKick list \<Rightarrow> bool" where
  "kicks_spaced ks =
     sorted_wrt (\<lambda>k k'. min_kick_interval \<le> \<bar>frame_number k' - frame_number k\<bar>) ks"

text \<open>
  A video of one frame with the ball at \<open>(0, 505)\<close>, the analyzer a fresh instance holds
  after it, and the analyzer that instance holds after it has then analyzed
  \<open>bounce_video\<close>.
\<close>

definition prev_video :: Video where
  "prev_video =
     \<lparr>cap_fps = 30, cap_frame_count = 1, cap_frame_height = 1080,
      cap_frames = [ball_frame 0 505 []]\<rparr>"

definition leftover_state :: BallKickAnalyzer where
  "leftover_state =
     \<lparr>ball_history = [(0, 505)], velocity_history = [(0, 0)], kicks = [],
      current_series_kicks = 0, in_juggling_series = False,
      last_ball_position = Some (0, 505)\<rparr>"

definition reuse_end :: BallKickAnalyzer where
  "reuse_end =
     \<lparr>ball_history = [(0, 525), (0, 515), (0, 1000)],
      velocity_history = [(0, 0), (0, - 10), (0, 485)], kicks = [],
      current_series_kicks = 0, in_juggling_series = False,
      last_ball_position = Some (0, 1000)\<rparr>"

text \<open>
  A later kick \<open>k'\<close> with respect to an earlier kick \<open>k\<close> of the run over \<open>frames\<close>: its
  frame is later, and when it is an "up" kick or its frame showed a foot, it is at least
  \<open>min_kick_interval\<close> frames later.
\<close>

definition spaced_after :: "Frame list \<Rightarrow> BallKick \<Rightarrow> BallKick \<Rightarrow> bool" where
  "spaced_after frames k k' \<longleftrightarrow>
     frame_number k < frame_number k'
     \<and> (kick_type k' = ''up'' \<or> feet_detection (frames ! nat (frame_number k')) \<noteq> [] \<longrightarrow>
          min_kick_interval \<le> frame_number k' - frame_number k)"

definition kicks_inv :: "Frame list \<Rightarrow> int \<Rightarrow> BallKick list \<Rightarrow> bool" where
  "kicks_inv frames n ks \<longleftrightarrow>
     (\<forall>k \<in> set ks. 0 \<le> frame_number k \<and> frame_number k < n)
     \<and> sorted_wrt (spaced_after frames) ks"

text \<open>
  The bounce with a foot 100 pixels from the ball on frame 8, then the ball at the
  ground on frame 16 with a foot at the ball.
\<close>

definition ground16 :: BallKick where
  "ground16 = \<lparr>frame_number = 16, timestamp = 16 / 30, ball_position = (0, 1000),
                kick_type = ''ground'', confidence = 9 / 10\<rparr>"

definition late_ground_video :: Video where
  "late_ground_video =
     \<lparr>cap_fps = 30, cap_frame_count = 17, cap_frame_height = 1080,
      cap_frames =
        [ball_frame 0 500 [], no_ball, no_ball, no_ball,
         ball_frame 0 525 [], no_ball, no_ball, no_ball,
         ball_frame 0 515 [(0, 615)], no_ball, no_ball, no_ball,
         no_ball, no_ball, no_ball, no_ball,
         ball_frame 0 1000 [(0, 1000)]]\<rparr>"

subsection \<open>What a frame did to the analyzer\<close>

text \<open>
  The effect of one frame, read off the analyzer before and after it: a kick was
  recorded, of type "up" or not; or none was recorded and the series flag or counter
  changed; or neither.
\<close>

datatype frame_effect = Quiet | SeriesEntered | UpKick | GroundKick

definition frame_effect_of :: "BallKickAnalyzer \<Rightarrow> BallKickAnalyzer \<Rightarrow> frame_effect" where
  "frame_effect_of a a' =
     (if kicks a' \<noteq> kicks a
      then (if kick_type (last (kicks a')) = ''up'' then UpKick else GroundKick)
      else if in_juggling_series a' \<noteq> in_juggling_series a
              \<or> current_series_kicks a' \<noteq> current_series_kicks a
      then SeriesEntered
      else Quiet)"

text \<open>The effects of the frames of a run, in order, along \<open>frames_loop\<close>.\<close>

fun frames_effects ::
  "BallKickAnalyzer \<Rightarrow> real \<Rightarrow> int \<Rightarrow> int \<Rightarrow> Frame list \<Rightarrow> frame_effect list"
where
  "frames_effects a fps frame_height n [] = []"
| "frames_effects a fps frame_height n (fr # rest) =
     frame_effect_of a (process_frame a fps frame_height n fr)
     # frames_effects (process_frame a fps frame_height n fr) fps frame_height (n + 1) rest"

text \<open>
  Every recorded "ground" kick has, since the last one or since the start, a frame that
  entered the series, with or without a recorded "up" kick; \<open>entered\<close> tells whether such
  a frame is pending.
\<close>

fun grounds_follow_entries :: "bool \<Rightarrow> frame_effect list \<Rightarrow> bool" where
  "grounds_follow_entries entered [] = True"
| "grounds_follow_entries entered (GroundKick # es) =
     (entered \<and> grounds_follow_entries False es)"
| "grounds_follow_entries entered (Quiet # es) = grounds_follow_entries entered es"
| "grounds_follow_entries entered (SeriesEntered # es) = grounds_follow_entries True es"
| "grounds_follow_entries entered (UpKick # es) = grounds_follow_entries True es"

fun effect_kick :: "frame_effect \<Rightarrow> string list" where
  "effect_kick UpKick = [''up'']"
| "effect_kick GroundKick = [''ground'']"
| "effect_kick Quiet = []"
| "effect_kick SeriesEntered = []"

text \<open>The analyzer of the bounce before frame 8.\<close>

definition fall_state :: BallKickAnalyzer where
  "fall_state =
     \<lparr>ball_history = [(0, 500), (0, 525)], velocity_history = [(0, 0), (0, 25)],
      kicks = [], current_series_kicks = 0, in_juggling_series = False,
      last_ball_position = Some (0, 525)\<rparr>"

section \<open>Binary64 arithmetic\<close>

lemma round_half_even_of_int: "round_half_even (real_of_int z) = z"
  by (simp add: round_half_even_def)

lemma double_round_down:
  assumes "2 ^ 52 \<le> \<bar>x\<bar> * 2 ^ j" and "\<bar>x\<bar> * 2 ^ j < 2 ^ 53"
  shows "double_round x = real_of_int (round_half_even (x * 2 ^ j)) / 2 ^ j"
proof -
  have nz: "x \<noteq> 0" using assms(1) by auto
  have p: "(2 :: real) powr real_of_int (52 - int j) = 2 ^ 52 / 2 ^ j"
    by (simp add: powr_diff powr_realpow flip: powr_realpow [of 2 52])
  have p1: "(2 :: real) powr (real_of_int (52 - int j) + 1) = 2 ^ 53 / 2 ^ j"
  proof -
    have "(2 :: real) powr (real_of_int (52 - int j) + 1)
        = 2 powr real_of_int (52 - int j) * 2 powr 1"
      by (rule powr_add)
    also have "\<dots> = 2 ^ 52 / 2 ^ j * 2"
      unfolding p by simp
    finally show ?thesis by simp
  qed
  have "\<lfloor>log 2 \<bar>x\<bar>\<rfloor> = 52 - int j"
  proof -
    have "2 powr real_of_int (52 - int j) \<le> \<bar>x\<bar>"
      unfolding p using assms(1) by (simp add: field_simps)
    moreover have "\<bar>x\<bar> < 2 powr (real_of_int (52 - int j) + 1)"
      unfolding p1 using assms(2) by (simp add: field_simps)
    ultimately show ?thesis
      using nz by (subst floor_log_eq_powr_iff) simp_all
  qed
  then have e: "\<lfloor>log 2 \<bar>x\<bar>\<rfloor> - 52 = - int j" by simp
  have q: "(2 :: real) powr real_of_int (- int j) = 1 / 2 ^ j"
    by (simp add: powr_minus powr_realpow inverse_eq_divide)
  show ?thesis
    using nz by (simp add: double_round_def e q Let_def del: of_int_minus)
qed

lemma double_round_of_int:
  assumes "\<bar>z\<bar> < 2 ^ 53"
  shows "double_round (real_of_int z) = real_of_int z"
proof (cases "z = 0")
  case True
  then show ?thesis by (simp add: double_round_def)
next
  case False
  define k where "k = \<lfloor>log 2 \<bar>real_of_int z\<bar>\<rfloor>"
  have pos: "0 < \<bar>real_of_int z\<bar>" using False by simp
  have "real_of_int \<bar>z\<bar> < 2 ^ 53"
    using assms by simp
  then have lt: "\<bar>real_of_int z\<bar> < 2 powr 53"
    by simp
  have "log 2 \<bar>real_of_int z\<bar> < log 2 (2 powr 53)"
    by (intro log_less pos lt) simp
  also have "log 2 (2 powr 53) = (53 :: real)"
    by (rule log_powr_cancel) simp_all
  finally have "log 2 \<bar>real_of_int z\<bar> < 53" .
  then have "k < 53"
    unfolding k_def by (simp add: floor_less_iff)
  then have k: "k \<le> 52" by simp
  define j where "j = nat (52 - k)"
  have e: "k - 52 = - int j"
    using k by (simp add: j_def)
  have q: "(2 :: real) powr real_of_int (- int j) = 1 / 2 ^ j"
    by (simp add: powr_minus powr_realpow inverse_eq_divide)
  have "real_of_int z / (1 / 2 ^ j) = real_of_int (z * 2 ^ j)"
    by simp
  then have r: "round_half_even (real_of_int z / (1 / 2 ^ j)) = z * 2 ^ j"
    by (simp only: round_half_even_of_int)
  show ?thesis
    using False
    unfolding double_round_def Let_def k_def [symmetric] e q r
    by simp
qed

lemma double_round_zero: "double_round 0 = 0"
  by (simp add: double_round_def)

lemma double_round_numeral:
  "numeral n < (2 :: int) ^ 53 \<Longrightarrow> double_round (numeral n) = numeral n"
  using double_round_of_int [of "numeral n"] by simp

lemma double_of_int_small: "\<bar>k\<bar> < 2 ^ 53 \<Longrightarrow> double_of_int k = real_of_int k"
  by (simp add: double_of_int_def double_round_of_int)

lemma d10707_nearest: "double_round (10707 / 1000) = d10707"
  using double_round_down [of "10707 / 1000" 49]
  by (simp add: round_half_even_def Let_def d10707_def)

lemma bonus_10707: "fadd (double_of_int (2 * 20)) (fmul d10707 5)
    = 3290970243328901 / 35184372088832"
proof -
  have m: "fmul d10707 5 = 7534381439102485 / 140737488355328"
    unfolding fmul_def
    using double_round_down [of "d10707 * 5" 47]
    by (simp add: round_half_even_def Let_def d10707_def)
  show ?thesis
    unfolding m fadd_def
    using double_round_down [of "double_of_int (2 * 20) + 7534381439102485 / 140737488355328" 46]
    by (simp add: round_half_even_def Let_def double_of_int_small)
qed

lemma efficiency_19: "fmul (fdiv (double_of_int 19) (max 0 1)) 50 = 950"
  by (simp add: fmul_def fdiv_def double_of_int_small double_round_numeral)

lemma penalty_zero: "fmul 0 (double_round (1 / 10)) = 0"
  by (simp add: fmul_def double_round_zero)

lemma score_10707: "calculate_score 19 ts 2 d10707 0 = double_round (123353 / 100)"
proof -
  have s1: "fadd (double_of_int (19 * 10)) (3290970243328901 / 35184372088832)
      = 2494000235051745 / 8796093022208"
    unfolding fadd_def
    using double_round_down [of "double_of_int (19 * 10) + 3290970243328901 / 35184372088832" 44]
    by (simp add: round_half_even_def Let_def double_of_int_small)
  have s2: "fadd (2494000235051745 / 8796093022208) 950 = 339071518942167 / 274877906944"
    unfolding fadd_def
    using double_round_down [of "2494000235051745 / 8796093022208 + 950" 42]
    by (simp add: round_half_even_def Let_def)
  have s3: "fsub (339071518942167 / 274877906944) 0 = 339071518942167 / 274877906944"
    unfolding fsub_def
    using double_round_down [of "339071518942167 / 274877906944 - 0" 42]
    by (simp add: round_half_even_def Let_def)
  have r: "round_half_even (339071518942167 / 274877906944 * 100) = 123353"
    by (simp add: round_half_even_def Let_def)
  show ?thesis
    unfolding calculate_score_def Let_def bonus_10707 efficiency_19 penalty_zero s1 s2 s3
      py_round2_def r
    by simp
qed

lemma flat_10707: "spec_score 19 2 d10707 0 = double_round (123354 / 100)"
proof -
  have m: "fmul d10707 5 = 7534381439102485 / 140737488355328"
    unfolding fmul_def
    using double_round_down [of "d10707 * 5" 47]
    by (simp add: round_half_even_def Let_def d10707_def)
  have s1: "fadd (double_of_int (19 * 10 + 2 * 20)) (7534381439102485 / 140737488355328)
      = 4988000470103491 / 17592186044416"
    unfolding fadd_def
    using double_round_down
      [of "double_of_int (19 * 10 + 2 * 20) + 7534381439102485 / 140737488355328" 44]
    by (simp add: round_half_even_def Let_def double_of_int_small)
  have s2: "fadd (4988000470103491 / 17592186044416) 950 = 5425144303074673 / 4398046511104"
    unfolding fadd_def
    using double_round_down [of "4988000470103491 / 17592186044416 + 950" 42]
    by (simp add: round_half_even_def Let_def)
  have s3: "fsub (5425144303074673 / 4398046511104) 0 = 5425144303074673 / 4398046511104"
    unfolding fsub_def
    using double_round_down [of "5425144303074673 / 4398046511104 - 0" 42]
    by (simp add: round_half_even_def Let_def)
  have r: "round_half_even (5425144303074673 / 4398046511104 * 100) = 123354"
    by (simp add: round_half_even_def Let_def)
  show ?thesis
    unfolding spec_score_def Let_def m efficiency_19 penalty_zero s1 s2 s3 py_round2_def r
    by simp
qed

lemma doubles_differ: "double_round (123353 / 100) < double_round (123354 / 100)"
  using double_round_down [of "123353 / 100" 42] double_round_down [of "123354 / 100" 42]
  by (simp add: round_half_even_def Let_def)

lemma double_round_int_small:
  "\<bar>z\<bar> \<le> 10 ^ 13 \<Longrightarrow> double_round (real_of_int z) = real_of_int z"
  by (rule double_round_of_int) simp

lemma fadd_int:
  "\<bar>a + b\<bar> \<le> 10 ^ 13 \<Longrightarrow> fadd (real_of_int a) (real_of_int b) = real_of_int (a + b)"
  using double_round_int_small [of "a + b"] by (simp add: fadd_def)

lemma fsub_int:
  "\<bar>a - b\<bar> \<le> 10 ^ 13 \<Longrightarrow> fsub (real_of_int a) (real_of_int b) = real_of_int (a - b)"
  using double_round_int_small [of "a - b"] by (simp add: fsub_def)

lemma fmul_int:
  "\<bar>a * b\<bar> \<le> 10 ^ 13 \<Longrightarrow> fmul (real_of_int a) (real_of_int b) = real_of_int (a * b)"
  using double_round_int_small [of "a * b"] by (simp add: fmul_def)

lemma py_round2_int:
  assumes "\<bar>s\<bar> \<le> 10 ^ 13"
  shows "py_round2 (real_of_int s) = real_of_int s"
proof -
  have "real_of_int s * 100 = real_of_int (s * 100)" by simp
  then have "round_half_even (real_of_int s * 100) = s * 100"
    by (simp only: round_half_even_of_int)
  then show ?thesis
    using double_round_int_small [OF assms] by (simp add: py_round2_def)
qed

lemma calculate_score_integral:
  assumes "0 \<le> tk" "tk \<le> 10 ^ 9" "0 \<le> bsk" "bsk \<le> 10 ^ 9" "0 \<le> n" "n \<le> 10 ^ 9"
  shows "calculate_score tk ts bsk (real_of_int n) 0
     = real_of_int (tk * 10 + bsk * 20 + n * 5 + tk * 50)"
proof -
  have a: "double_of_int (bsk * 20) = real_of_int (bsk * 20)"
    using assms by (intro double_of_int_small) simp
  have b: "fmul (real_of_int n) 5 = real_of_int (n * 5)"
    using fmul_int [of n 5] assms by simp
  have c: "fadd (real_of_int (bsk * 20)) (real_of_int (n * 5)) = real_of_int (bsk * 20 + n * 5)"
    using assms by (intro fadd_int) simp
  have d: "double_of_int (tk * 10) = real_of_int (tk * 10)"
    using assms by (intro double_of_int_small) simp
  have e: "fadd (real_of_int (tk * 10)) (real_of_int (bsk * 20 + n * 5))
      = real_of_int (tk * 10 + (bsk * 20 + n * 5))"
    using assms by (intro fadd_int) simp
  have f: "fdiv (double_of_int tk) (max 0 1) = real_of_int tk"
    using assms double_round_int_small [of tk]
    by (simp add: fdiv_def double_of_int_def)
  have g: "fmul (real_of_int tk) 50 = real_of_int (tk * 50)"
    using fmul_int [of tk 50] assms by simp
  have h: "fadd (real_of_int (tk * 10 + (bsk * 20 + n * 5))) (real_of_int (tk * 50))
      = real_of_int (tk * 10 + (bsk * 20 + n * 5) + tk * 50)"
    using assms by (intro fadd_int) simp
  have p: "fmul 0 (double_round (1 / 10)) = 0"
    by (simp add: fmul_def double_round_zero)
  have q: "fsub (real_of_int (tk * 10 + (bsk * 20 + n * 5) + tk * 50)) 0
      = real_of_int (tk * 10 + (bsk * 20 + n * 5) + tk * 50)"
    using fsub_int [of "tk * 10 + (bsk * 20 + n * 5) + tk * 50" 0] assms by simp
  have r: "py_round2 (real_of_int (tk * 10 + (bsk * 20 + n * 5) + tk * 50))
      = real_of_int (tk * 10 + (bsk * 20 + n * 5) + tk * 50)"
    using assms by (intro py_round2_int) simp
  have "calculate_score tk ts bsk (real_of_int n) 0
      = real_of_int (tk * 10 + (bsk * 20 + n * 5) + tk * 50)"
    unfolding calculate_score_def Let_def a b c d e f g h p q r ..
  then show ?thesis by (simp add: add.assoc)
qed

lemma score_quarter: "calculate_score 0 ts 0 0 (1 / 4) = double_round (- 3 / 100)"
proof -
  have t: "double_round (1 / 10) = 3602879701896397 / 36028797018963968"
    using double_round_down [of "1 / 10" 56]
    by (simp add: round_half_even_def Let_def)
  have p: "fmul (1 / 4) (3602879701896397 / 36028797018963968)
      = 3602879701896397 / 144115188075855872"
    unfolding fmul_def
    using double_round_down [of "1 / 4 * (3602879701896397 / 36028797018963968)" 58]
    by (simp add: round_half_even_def Let_def)
  have z: "fadd (double_of_int (0 * 10)) (fadd (double_of_int (0 * 20)) (fmul 0 5)) = 0"
    by (simp add: fadd_def fmul_def double_of_int_def double_round_zero)
  have e: "fmul (fdiv (double_of_int 0) (max (1 / 4) 1)) 50 = 0"
    by (simp add: fmul_def fdiv_def double_of_int_def double_round_zero)
  have s: "fsub (fadd 0 0) (3602879701896397 / 144115188075855872)
      = - (3602879701896397 / 144115188075855872)"
    unfolding fsub_def fadd_def
    using double_round_down [of "double_round (0 + 0) - 3602879701896397 / 144115188075855872" 58]
    by (simp add: round_half_even_def Let_def double_round_zero)
  have r: "round_half_even (- (3602879701896397 / 144115188075855872) * 100) = - 3"
    by (simp add: round_half_even_def Let_def)
  show ?thesis
    unfolding calculate_score_def Let_def t p z e s py_round2_def r
    by simp
qed

lemma exact_quarter: "exact_score 0 0 0 (1 / 4) = - 2 / 100"
  by (simp add: exact_score_def round_half_even_def Let_def)

lemma quarter_differs: "double_round (- 3 / 100) < - 2 / 100"
  using double_round_down [of "- 3 / 100" 58]
  by (simp add: round_half_even_def Let_def)

section \<open>The series segmenter\<close>

lemma series_loop_acc:
  "series_loop ks (pre @ series) st ck tst =
     (case series_loop ks series st ck tst of Inl e \<Rightarrow> Inl e | Inr r \<Rightarrow> Inr (pre @ r))"
proof (induction ks arbitrary: series st ck tst)
  case Nil
  show ?case by simp
next
  case (Cons k ks)
  show ?case
    using Cons.IH [of series] Cons.IH [of "series @ [x]" for x]
    by (simp split: option.splits bool.splits)
qed

lemma series_loop_total:
  "(st = None \<longleftrightarrow> tst = None) \<Longrightarrow> \<exists>r. series_loop ks series st ck tst = Inr r"
proof (induction ks arbitrary: series st ck tst)
  case Nil
  show ?case by simp
next
  case (Cons k ks)
  then show ?case
    by (cases st; cases tst) (simp_all split: option.splits bool.splits)
qed

lemma series_loop_ups_open:
  "\<forall>k \<in> set ups. kick_type k = ''up'' \<Longrightarrow>
   series_loop (ups @ rest) series (Some s) ck tst =
     series_loop rest series (Some s) (ck + int (length ups)) tst"
  by (induction ups arbitrary: ck) (simp_all add: algebra_simps)

lemma series_loop_only_ups:
  "\<forall>k \<in> set ups. kick_type k = ''up'' \<Longrightarrow> series_loop ups series st ck tst = Inr series"
proof (cases ups)
  case Nil
  then show ?thesis by simp
next
  case (Cons u us)
  assume ups: "\<forall>k \<in> set ups. kick_type k = ''up''"
  with Cons have u: "kick_type u = ''up''" and us: "\<forall>k \<in> set us. kick_type k = ''up''"
    by simp_all
  show ?thesis
    using u series_loop_ups_open [OF us, of "[]"] Cons
    by (cases st) simp_all
qed

lemma series_loop_closed_run:
  assumes "kick_type u = ''up''" and "\<forall>k \<in> set ups. kick_type k = ''up''"
    and "kick_type g = ''ground''"
  shows "series_loop (u # ups @ g # rest) [] None 0 None =
     (case series_loop rest [] None 0 None of
        Inl e \<Rightarrow> Inl e
      | Inr ss \<Rightarrow>
          Inr (\<lparr>start_frame = frame_number u, end_frame = frame_number g,
                kicks_count = 1 + int (length ups),
                duration = timestamp g - timestamp u\<rparr> # ss))"
proof -
  let ?s = "\<lparr>start_frame = frame_number u, end_frame = frame_number g,
             kicks_count = 1 + int (length ups), duration = timestamp g - timestamp u\<rparr>"
  have "series_loop (u # ups @ g # rest) [] None 0 None =
        series_loop (g # rest) [] (Some (frame_number u)) (1 + int (length ups))
          (Some (timestamp u))"
    using assms(1) series_loop_ups_open [OF assms(2), of "g # rest"] by simp
  also have "\<dots> = series_loop rest ([?s] @ []) None 0 None"
    using assms(3) by simp
  also have "\<dots> = (case series_loop rest [] None 0 None of
        Inl e \<Rightarrow> Inl e | Inr ss \<Rightarrow> Inr ([?s] @ ss))"
    by (rule series_loop_acc)
  also have "\<dots> = (case series_loop rest [] None 0 None of
        Inl e \<Rightarrow> Inl e | Inr ss \<Rightarrow> Inr (?s # ss))"
    by (simp split: sum.splits)
  finally show ?thesis .
qed

text \<open>
  C8. \<open>_analyze_juggling_series\<close> never fails, and on kicks of type "up" and "ground" it is
  determined by three equations: kicks that are all "up" give no series (an open run
  is dropped at the end of the input); a leading "ground" with no open series is skipped;
  a run of "up" kicks followed by a "ground" gives one series, from the frame and
  timestamp of the first "up" to those of the "ground", counting the "up" kicks of the
  run, followed by the series of the remaining kicks.
\<close>

theorem series_segmenter_fold:
  "(\<exists>ss. analyze_juggling_series a = Inr ss)
   \<and> ((\<forall>k \<in> set (kicks a). kick_type k = ''up'') \<longrightarrow> analyze_juggling_series a = Inr [])
   \<and> (\<forall>g rest. kicks a = g # rest \<and> kick_type g = ''ground'' \<longrightarrow>
         analyze_juggling_series a = analyze_juggling_series (a\<lparr>kicks := rest\<rparr>))
   \<and> (\<forall>u ups g rest.
         kicks a = u # ups @ g # rest \<and> kick_type u = ''up''
         \<and> (\<forall>k \<in> set ups. kick_type k = ''up'') \<and> kick_type g = ''ground'' \<longrightarrow>
         (\<exists>ss. analyze_juggling_series (a\<lparr>kicks := rest\<rparr>) = Inr ss
            \<and> analyze_juggling_series a =
                Inr (\<lparr>start_frame = frame_number u, end_frame = frame_number g,
                      kicks_count = 1 + int (length ups),
                      duration = timestamp g - timestamp u\<rparr> # ss)))"
proof -
  have total: "\<exists>ss. series_loop ks [] None 0 None = Inr ss" for ks
    by (rule series_loop_total) simp
  have run: "\<exists>ss. series_loop rest [] None 0 None = Inr ss
      \<and> series_loop (u # ups @ g # rest) [] None 0 None =
          Inr (\<lparr>start_frame = frame_number u, end_frame = frame_number g,
                kicks_count = 1 + int (length ups),
                duration = timestamp g - timestamp u\<rparr> # ss)"
    if "kick_type u = ''up''" "\<forall>k \<in> set ups. kick_type k = ''up''" "kick_type g = ''ground''"
    for u ups g rest
    using total [of rest] series_loop_closed_run [OF that, of rest] by auto
  show ?thesis
    unfolding analyze_juggling_series_def
    using total [of "kicks a"] run
    by (auto simp: series_loop_only_ups)
qed

theorem series_segmenter_fold_witness:
  "analyze_juggling_series
     (init_analyzer\<lparr>kicks :=
        [\<lparr>frame_number = 8, timestamp = 1, ball_position = (0, 0), kick_type = ''up'',
          confidence = 8 / 10\<rparr>,
         \<lparr>frame_number = 16, timestamp = 2, ball_position = (0, 0), kick_type = ''up'',
          confidence = 8 / 10\<rparr>,
         \<lparr>frame_number = 24, timestamp = 3, ball_position = (0, 0), kick_type = ''ground'',
          confidence = 9 / 10\<rparr>,
         \<lparr>frame_number = 32, timestamp = 4, ball_position = (0, 0), kick_type = ''up'',
          confidence = 8 / 10\<rparr>]\<rparr>)
   = Inr [\<lparr>start_frame = 8, end_frame = 24, kicks_count = 2, duration = 2\<rparr>]"
proof -
  let ?u1 = "\<lparr>frame_number = 8, timestamp = 1, ball_position = (0, 0), kick_type = ''up'',
          confidence = 8 / 10\<rparr>"
  let ?u2 = "\<lparr>frame_number = 16, timestamp = 2, ball_position = (0, 0), kick_type = ''up'',
          confidence = 8 / 10\<rparr>"
  let ?g = "\<lparr>frame_number = 24, timestamp = 3, ball_position = (0, 0), kick_type = ''ground'',
          confidence = 9 / 10\<rparr>"
  let ?u3 = "\<lparr>frame_number = 32, timestamp = 4, ball_position = (0, 0), kick_type = ''up'',
          confidence = 8 / 10\<rparr>"
  let ?a = "init_analyzer\<lparr>kicks := [?u1, ?u2, ?g, ?u3]\<rparr>"
  have open_run: "analyze_juggling_series (?a\<lparr>kicks := [?u3]\<rparr>) = Inr []"
    using series_segmenter_fold [of "?a\<lparr>kicks := [?u3]\<rparr>"] by simp
  have "kicks ?a = ?u1 # [?u2] @ ?g # [?u3] \<and> kick_type ?u1 = ''up''
         \<and> (\<forall>k \<in> set [?u2]. kick_type k = ''up'') \<and> kick_type ?g = ''ground'' \<longrightarrow>
      (\<exists>ss. analyze_juggling_series (?a\<lparr>kicks := [?u3]\<rparr>) = Inr ss
        \<and> analyze_juggling_series ?a =
          Inr (\<lparr>start_frame = frame_number ?u1, end_frame = frame_number ?g,
                kicks_count = 1 + int (length [?u2]),
                duration = timestamp ?g - timestamp ?u1\<rparr> # ss))"
    using series_segmenter_fold [of ?a] by blast
  with open_run show ?thesis by simp
qed

section \<open>The leaderboard\<close>

lemma sorted_desc_iff: "sorted_desc rs \<longleftrightarrow> sorted (map (\<lambda>x. - score x) rs)"
  by (simp add: sorted_desc_def sorted_map)

lemma sorted_desc_sort_results: "sorted_desc (sort_results rs)"
  by (simp add: sorted_desc_iff sort_results_def)

lemma length_sort_results: "length (sort_results rs) = length rs"
  by (simp add: sort_results_def)

lemma sorted_desc_last_min:
  "sorted_desc rs \<Longrightarrow> r \<in> set rs \<Longrightarrow> score (last rs) \<le> score r"
proof (induction rs)
  case Nil
  then show ?case by simp
next
  case (Cons x xs)
  then show ?case
    by (cases "xs = []") (auto simp: sorted_desc_def)
qed

lemma sorted_desc_butlast: "sorted_desc rs \<Longrightarrow> sorted_desc (butlast rs)"
  unfolding sorted_desc_def
  by (induction rs) (auto dest: in_set_butlastD)

text \<open>
  Sorting a sorted list with one entry appended puts the entry behind every entry whose
  score is at least its own and keeps the order of the others.
\<close>

lemma sort_results_snoc:
  "sorted_desc rs \<Longrightarrow>
   sort_results (rs @ [x]) =
     filter (\<lambda>r. score x \<le> score r) rs @ [x] @ filter (\<lambda>r. score r < score x) rs"
proof (induction rs)
  case Nil
  show ?case by (simp add: sort_results_def)
next
  case (Cons r rs)
  from Cons.prems have tail: "sorted_desc rs" and top: "\<forall>y \<in> set rs. score y \<le> score r"
    by (auto simp: sorted_desc_def)
  have ih: "sort_key (\<lambda>x. - score x) (rs @ [x]) =
      filter (\<lambda>r. score x \<le> score r) rs @ [x] @ filter (\<lambda>r. score r < score x) rs"
    using Cons.IH [OF tail] by (simp add: sort_results_def)
  show ?case
  proof (cases "score x \<le> score r")
    case True
    have "insort_key (\<lambda>x. - score x) r
            (filter (\<lambda>r. score x \<le> score r) rs @ [x] @ filter (\<lambda>r. score r < score x) rs)
          = r # (filter (\<lambda>r. score x \<le> score r) rs @ [x] @ filter (\<lambda>r. score r < score x) rs)"
      by (rule insort_is_Cons) (use True top in auto)
    with True ih show ?thesis by (simp add: sort_results_def)
  next
    case False
    with top have none: "filter (\<lambda>r. score x \<le> score r) rs = []"
      and all: "filter (\<lambda>r. score r < score x) rs = rs"
      by (auto simp: filter_empty_conv filter_id_conv)
    have "insort_key (\<lambda>x. - score x) r rs = r # rs"
      by (rule insort_is_Cons) (use top in auto)
    with False ih none all show ?thesis by (simp add: sort_results_def)
  qed
qed

lemma add_result_cases:
  assumes "add_result m now now_saved name tk ts bsk bsd pt = Inr (b, m')"
  obtains
    (append) "int (length (results m)) < max_results m" "b"
      "m' = save_results
              (m\<lparr>results := sort_results (results m @ [new_entry now name tk ts bsk bsd pt])\<rparr>)
              now_saved"
  | (replace) "\<not> int (length (results m)) < max_results m" "results m \<noteq> []" "b"
      "score (last (results m)) < calculate_score tk ts bsk bsd pt"
      "m' = save_results
              (m\<lparr>results :=
                   sort_results (butlast (results m) @ [new_entry now name tk ts bsk bsd pt])\<rparr>)
              now_saved"
  | (reject) "\<not> int (length (results m)) < max_results m" "results m \<noteq> []" "\<not> b"
      "calculate_score tk ts bsk bsd pt \<le> score (last (results m))" "m' = m"
  using assms
  by (auto simp: add_result_def new_entry_def Let_def split: if_splits)

lemma add_result_keeps:
  assumes "sorted_desc (results m)"
    and "add_result m now now_saved name tk ts bsk bsd pt = Inr (b, m')"
  shows "sorted_desc (results m') \<and> max_results m' = max_results m
     \<and> int (length (results m')) \<le> max (max_results m) (int (length (results m)))"
  using assms(2)
proof (cases rule: add_result_cases)
  case append
  then show ?thesis
    by (simp add: save_results_def sorted_desc_sort_results length_sort_results)
next
  case replace
  then show ?thesis
    by (simp add: save_results_def sorted_desc_sort_results length_sort_results)
next
  case reject
  then show ?thesis using assms(1) by simp
qed

lemma load_manager_sorted:
  "sorted_desc (results (load_manager stored bound))
   \<and> max_results (load_manager stored bound) = bound"
proof (cases stored)
  case (Document rs)
  then show ?thesis
    by (simp add: load_manager_def sorted_desc_sort_results)
qed (simp_all add: load_manager_def sorted_desc_def)

lemma reachable_inv:
  "reachable stored bound m \<Longrightarrow>
   max_results m = bound \<and> sorted_desc (results m)
   \<and> int (length (results m))
       \<le> max bound (int (length (results (load_manager stored bound))))"
proof (induction rule: reachable.induct)
  case (loaded stored bound)
  show ?case
    using load_manager_sorted [of stored bound] by simp
next
  case (added stored bound m now now_saved name tk ts bsk bsd pt b m')
  from added.IH have s: "sorted_desc (results m)" by simp
  from add_result_keeps [OF s added.hyps(2)] added.IH show ?case
    by auto
qed

lemma add_result_position:
  assumes "sorted_desc (results m)"
    and "add_result m now now_saved name tk ts bsk bsd pt = Inr (True, m')"
  shows "results m' =
     (let kept = (if int (length (results m)) < max_results m then results m
                  else butlast (results m));
          e = new_entry now name tk ts bsk bsd pt
      in filter (\<lambda>r. score e \<le> score r) kept @ [e] @ filter (\<lambda>r. score r < score e) kept)"
  using assms(2)
proof (cases rule: add_result_cases)
  case append
  then show ?thesis
    using sort_results_snoc [OF assms(1)] by (simp add: save_results_def Let_def)
next
  case replace
  then show ?thesis
    using sort_results_snoc [OF sorted_desc_butlast [OF assms(1)]]
    by (simp add: save_results_def Let_def)
next
  case reject
  then show ?thesis by simp
qed

lemma calculate_score_duration_only:
  assumes "0 \<le> n" and "n \<le> 10 ^ 9"
  shows "calculate_score 0 ts 0 (real_of_int n) 0 = real_of_int (5 * n)"
  using calculate_score_integral [of 0 0 n ts] assms by (simp add: mult.commute)

text \<open>
  C4. The handler of \<open>GET /results\<close> answers a limit of 0 with the empty list of
  entries, not with an error, while it answers a limit of 31 with status 400;
  \<open>get_top_results\<close> itself never fails: for 0 it returns the empty list and for 31
  the first 31 entries.
\<close>

theorem get_results_limit_zero:
  "get_results m (Some 0) = success_response []
   \<and> get_results m (Some 31) = error_response 400
   \<and> get_top_results m (Some 0) = []
   \<and> get_top_results m (Some 31) = take 31 (results m)"
  by (simp add: get_results_def get_top_results_def slice_to_def)

text \<open>
  C5. On a leaderboard sorted by descending score with a positive bound: below the bound
  \<open>add_result\<close> accepts, stores the sorted list with the new entry appended and writes
  it; at the bound the last entry has the lowest score, a new score strictly above it
  replaces that entry (sorted and written), and a new score equal to or below it is
  rejected with the manager, and so its list and its writes, unchanged.
\<close>

theorem add_result_admission:
  assumes "sorted_desc (results m)" and "0 < max_results m"
  shows
    "(int (length (results m)) < max_results m \<longrightarrow>
        add_result m now now_saved name tk ts bsk bsd pt =
          Inr (True,
               m\<lparr>results := sort_results (results m @ [new_entry now name tk ts bsk bsd pt]),
                 writes := writes m @
                   [\<lparr>stored_max_results = max_results m, stored_last_updated = now_saved,
                     stored_results =
                       sort_results (results m @ [new_entry now name tk ts bsk bsd pt])\<rparr>]\<rparr>))
     \<and> (max_results m \<le> int (length (results m)) \<longrightarrow>
          results m \<noteq> []
          \<and> (\<forall>r \<in> set (results m). score (last (results m)) \<le> score r)
          \<and> (score (last (results m)) < calculate_score tk ts bsk bsd pt \<longrightarrow>
                add_result m now now_saved name tk ts bsk bsd pt =
                  Inr (True,
                       m\<lparr>results :=
                           sort_results
                             (butlast (results m) @ [new_entry now name tk ts bsk bsd pt]),
                         writes := writes m @
                           [\<lparr>stored_max_results = max_results m,
                             stored_last_updated = now_saved,
                             stored_results =
                               sort_results
                                 (butlast (results m)
                                    @ [new_entry now name tk ts bsk bsd pt])\<rparr>]\<rparr>))
          \<and> (calculate_score tk ts bsk bsd pt \<le> score (last (results m)) \<longrightarrow>
                add_result m now now_saved name tk ts bsk bsd pt = Inr (False, m)))"
proof -
  have full: "results m \<noteq> []" if "max_results m \<le> int (length (results m))"
    using that assms(2) by auto
  have low: "\<forall>r \<in> set (results m). score (last (results m)) \<le> score r"
    using assms(1) by (simp add: sorted_desc_last_min)
  show ?thesis
    using full low
    by (simp add: add_result_def new_entry_def save_results_def Let_def)
qed

theorem add_result_admission_witness:
  "sorted_desc (results example_board) \<and> 0 < max_results example_board
   \<and> map score (results example_board) = [100, 50]
   \<and> add_result example_board ''t2'' ''t3'' ''c.mp4'' 0 0 0 10 0 = Inr (False, example_board)
   \<and> (\<exists>m'. add_result example_board ''t2'' ''t3'' ''c.mp4'' 0 0 0 15 0 = Inr (True, m')
          \<and> map score (results m') = [100, 75]
          \<and> map video_name (results m') = [''a.mp4'', ''c.mp4'']
          \<and> map stored_results (writes m') = [results m'])"
proof -
  have scores: "calculate_score 0 0 0 20 0 = 100" "calculate_score 0 0 0 10 0 = 50"
    "calculate_score 0 0 0 15 0 = 75"
    using calculate_score_duration_only [of 20 0] calculate_score_duration_only [of 10 0]
      calculate_score_duration_only [of 15 0]
    by simp_all
  have s: "sorted_desc (results example_board)"
    by (simp add: example_board_def sorted_desc_def new_entry_def scores)
  have b: "0 < max_results example_board"
    by (simp add: example_board_def)
  have rej: "add_result example_board ''t2'' ''t3'' ''c.mp4'' 0 0 0 10 0
      = Inr (False, example_board)"
    using add_result_admission [OF s b, of "''t2''" "''t3''" "''c.mp4''" 0 0 0 10 0]
    by (simp add: example_board_def new_entry_def scores)
  have acc: "add_result example_board ''t2'' ''t3'' ''c.mp4'' 0 0 0 15 0
      = Inr (True,
          example_board\<lparr>results :=
              sort_results (butlast (results example_board)
                @ [new_entry ''t2'' ''c.mp4'' 0 0 0 15 0]),
            writes := writes example_board @
              [\<lparr>stored_max_results = max_results example_board, stored_last_updated = ''t3'',
                stored_results =
                  sort_results (butlast (results example_board)
                    @ [new_entry ''t2'' ''c.mp4'' 0 0 0 15 0])\<rparr>]\<rparr>)"
    using add_result_admission [OF s b, of "''t2''" "''t3''" "''c.mp4''" 0 0 0 15 0]
    by (simp add: example_board_def new_entry_def scores)
  have sorted: "sort_results (butlast (results example_board)
        @ [new_entry ''t2'' ''c.mp4'' 0 0 0 15 0])
      = [new_entry ''t0'' ''a.mp4'' 0 0 0 20 0, new_entry ''t2'' ''c.mp4'' 0 0 0 15 0]"
    by (simp add: example_board_def sort_results_def new_entry_def scores)
  show ?thesis
    using s b rej acc sorted
    by (simp add: example_board_def new_entry_def scores)
qed

text \<open>
  C6, as stated, fails. \<open>_load_results\<close> keeps every entry of the storage file: a
  manager constructed with the bound 2 over a file of three entries holds three entries,
  and still holds three after an accepted \<open>add_result\<close>.
\<close>

theorem leaderboard_over_bound_counterexample:
  "max_results (load_manager long_file 2) = 2
   \<and> map score (results (load_manager long_file 2)) = [100, 50, 25]
   \<and> add_result (load_manager long_file 2) ''t2'' ''t3'' ''c.mp4'' 0 0 0 15 0 =
       Inr (True,
            \<lparr>results = [new_entry ''t0'' ''a.mp4'' 0 0 0 20 0,
                        new_entry ''t2'' ''c.mp4'' 0 0 0 15 0,
                        new_entry ''t1'' ''b.mp4'' 0 0 0 10 0],
             max_results = 2,
             writes = [\<lparr>stored_max_results = 2, stored_last_updated = ''t3'',
                        stored_results = [new_entry ''t0'' ''a.mp4'' 0 0 0 20 0,
                                          new_entry ''t2'' ''c.mp4'' 0 0 0 15 0,
                                          new_entry ''t1'' ''b.mp4'' 0 0 0 10 0]\<rparr>]\<rparr>)
   \<and> \<not> int (length [new_entry ''t0'' ''a.mp4'' 0 0 0 20 0,
                       new_entry ''t2'' ''c.mp4'' 0 0 0 15 0,
                       new_entry ''t1'' ''b.mp4'' 0 0 0 10 0]) \<le> 2"
proof -
  have scores: "calculate_score 0 0 0 20 0 = 100" "calculate_score 0 0 0 10 0 = 50"
    "calculate_score 0 0 0 15 0 = 75" "calculate_score 0 0 0 5 0 = 25"
    using calculate_score_duration_only [of 20 0] calculate_score_duration_only [of 10 0]
      calculate_score_duration_only [of 15 0] calculate_score_duration_only [of 5 0]
    by simp_all
  have l: "load_manager long_file 2 =
      \<lparr>results = [new_entry ''t0'' ''a.mp4'' 0 0 0 20 0, new_entry ''t1'' ''b.mp4'' 0 0 0 10 0,
                  new_entry ''t4'' ''d.mp4'' 0 0 0 5 0],
       max_results = 2, writes = []\<rparr>"
    by (simp add: load_manager_def long_file_def sort_results_def new_entry_def scores)
  show ?thesis
    unfolding l
    by (simp add: add_result_def save_results_def sort_results_def new_entry_def scores
        Let_def)
qed

text \<open>
  C6, amended. In every reachable manager, and so after every completed \<open>add_result\<close>,
  the list is sorted by descending score and has at most as many entries as the larger of
  \<open>max_results\<close> and the number of entries loaded from the storage file: \<open>add_result\<close>
  never lets it grow beyond \<open>max_results\<close>, so it has at most \<open>max_results\<close> entries
  whenever the file had. An accepted entry stands behind every kept entry whose score is
  at least its own (behind its ties) and before the others, the kept entries in their old
  order; a rejected call leaves the list as it was.
\<close>

theorem leaderboard_sorted_and_bounded:
  assumes "reachable stored bound m"
  shows
    "max_results m = bound \<and> sorted_desc (results m)
     \<and> int (length (results m))
         \<le> max bound (int (length (results (load_manager stored bound))))
     \<and> (int (length (results (load_manager stored bound))) \<le> bound \<longrightarrow>
          int (length (results m)) \<le> max_results m)
     \<and> (\<forall>now now_saved name tk ts bsk bsd pt b m'.
          add_result m now now_saved name tk ts bsk bsd pt = Inr (b, m') \<longrightarrow>
          sorted_desc (results m')
          \<and> int (length (results m')) \<le> max (max_results m) (int (length (results m)))
          \<and> (if b
              then results m' =
                (let kept = (if int (length (results m)) < max_results m then results m
                             else butlast (results m));
                     e = new_entry now name tk ts bsk bsd pt
                 in filter (\<lambda>r. score e \<le> score r) kept @ [e]
                    @ filter (\<lambda>r. score r < score e) kept)
              else results m' = results m))"
proof -
  note inv = reachable_inv [OF assms]
  from inv have s: "sorted_desc (results m)" by simp
  have step: "sorted_desc (results m')
      \<and> int (length (results m')) \<le> max (max_results m) (int (length (results m)))"
    if "add_result m now now_saved name tk ts bsk bsd pt = Inr (b, m')"
    for now now_saved name tk ts bsk bsd pt b m'
    using add_result_keeps [OF s that] by simp
  have pos: "results m' =
        (let kept = (if int (length (results m)) < max_results m then results m
                     else butlast (results m));
             e = new_entry now name tk ts bsk bsd pt
         in filter (\<lambda>r. score e \<le> score r) kept @ [e]
            @ filter (\<lambda>r. score r < score e) kept)"
    if "add_result m now now_saved name tk ts bsk bsd pt = Inr (True, m')"
    for now now_saved name tk ts bsk bsd pt m'
    using s that by (rule add_result_position)
  have same: "results m' = results m"
    if "add_result m now now_saved name tk ts bsk bsd pt = Inr (False, m')"
    for now now_saved name tk ts bsk bsd pt m'
    using that by (cases rule: add_result_cases) simp_all
  have call: "sorted_desc (results m')
      \<and> int (length (results m')) \<le> max (max_results m) (int (length (results m)))
      \<and> (if b
          then results m' =
            (let kept = (if int (length (results m)) < max_results m then results m
                         else butlast (results m));
                 e = new_entry now name tk ts bsk bsd pt
             in filter (\<lambda>r. score e \<le> score r) kept @ [e]
                @ filter (\<lambda>r. score r < score e) kept)
          else results m' = results m)"
    if a: "add_result m now now_saved name tk ts bsk bsd pt = Inr (b, m')"
    for now now_saved name tk ts bsk bsd pt b m'
  proof (cases b)
    case True
    with a pos step [OF a] show ?thesis by simp
  next
    case False
    with a same step [OF a] show ?thesis by simp
  qed
  from inv have "int (length (results (load_manager stored bound))) \<le> bound \<longrightarrow>
      int (length (results m)) \<le> max_results m"
    by auto
  with inv call show ?thesis
    by blast
qed

theorem leaderboard_sorted_and_bounded_witness:
  "\<exists>m1 m2.
     add_result (load_manager Missing 2) ''t1'' ''s1'' ''a.mp4'' 0 0 0 10 0 = Inr (True, m1)
     \<and> add_result m1 ''t2'' ''s2'' ''b.mp4'' 0 0 0 10 0 = Inr (True, m2)
     \<and> reachable Missing 2 m2
     \<and> int (length (results (load_manager Missing 2))) \<le> 2
     \<and> int (length (results m2)) \<le> max_results m2 \<and> sorted_desc (results m2)
     \<and> map video_name (results m2) = [''a.mp4'', ''b.mp4'']
     \<and> map score (results m2) = [50, 50]"
proof -
  let ?m0 = "load_manager Missing 2"
  let ?a = "new_entry ''t1'' ''a.mp4'' 0 0 0 10 0"
  let ?b = "new_entry ''t2'' ''b.mp4'' 0 0 0 10 0"
  have sc: "calculate_score 0 0 0 10 0 = 50"
    using calculate_score_duration_only [of 10 0] by simp
  have r0: "reachable Missing 2 ?m0"
    by (rule reachable.loaded)
  have l0: "int (length (results ?m0)) \<le> 2"
    by (simp add: load_manager_def)
  obtain m1 where m1: "add_result ?m0 ''t1'' ''s1'' ''a.mp4'' 0 0 0 10 0 = Inr (True, m1)"
    by (simp add: add_result_def load_manager_def Let_def)
  have r1: "reachable Missing 2 m1"
    using r0 m1 by (rule reachable.added)
  have res1: "results m1 = [?a]" and max1: "max_results m1 = 2"
    using m1
    by (auto simp: add_result_def load_manager_def Let_def save_results_def sort_results_def
        new_entry_def)
  obtain m2 where m2: "add_result m1 ''t2'' ''s2'' ''b.mp4'' 0 0 0 10 0 = Inr (True, m2)"
    using res1 max1 by (simp add: add_result_def Let_def)
  have r2: "reachable Missing 2 m2"
    using r1 m2 by (rule reachable.added)
  from leaderboard_sorted_and_bounded [OF r1] m2
  have "results m2 =
      (let kept = (if int (length (results m1)) < max_results m1 then results m1
                   else butlast (results m1));
           e = ?b
       in filter (\<lambda>r. score e \<le> score r) kept @ [e] @ filter (\<lambda>r. score r < score e) kept)"
    by fastforce
  then have res2: "results m2 = [?a, ?b]"
    using res1 max1 by (simp add: new_entry_def sc)
  from leaderboard_sorted_and_bounded [OF r2] l0
  have "int (length (results m2)) \<le> max_results m2 \<and> sorted_desc (results m2)"
    by blast
  with m1 m2 r2 l0 res2 show ?thesis
    by (auto simp: new_entry_def sc)
qed

text \<open>
  C7, as stated, fails. For 19 kicks, a best series of 2 kicks and 10.707 seconds and
  a processing time of 0, \<open>_calculate_score\<close> returns the float 1233.53, while the
  formula of the claim gives 1233.54, both evaluated in floats in the order written and
  evaluated exactly. For a processing time of a quarter of a second and nothing else,
  \<open>_calculate_score\<close> returns the float -0.03 and the exact formula gives -0.02.
\<close>

theorem calculate_score_counterexample:
  "double_round (10707 / 1000) = d10707
   \<and> calculate_score 19 1 2 d10707 0 = double_round (123353 / 100)
   \<and> spec_score 19 2 d10707 0 = double_round (123354 / 100)
   \<and> exact_score 19 2 d10707 0 = 123354 / 100
   \<and> calculate_score 19 1 2 d10707 0 < spec_score 19 2 d10707 0
   \<and> calculate_score 19 1 2 d10707 0 < exact_score 19 2 d10707 0
   \<and> calculate_score 0 0 0 0 (1 / 4) = double_round (- 3 / 100)
   \<and> exact_score 0 0 0 (1 / 4) = - 2 / 100
   \<and> calculate_score 0 0 0 0 (1 / 4) < exact_score 0 0 0 (1 / 4)"
proof -
  have e: "exact_score 19 2 d10707 0 = 123354 / 100"
    by (simp add: exact_score_def d10707_def round_half_even_def Let_def)
  have below: "double_round (123353 / 100) < 123354 / 100"
    using double_round_down [of "123353 / 100" 42]
    by (simp add: round_half_even_def Let_def)
  show ?thesis
    using doubles_differ quarter_differs below
    by (simp add: d10707_nearest score_10707 flat_10707 e score_quarter exact_quarter)
qed

text \<open>
  C7, amended. The score is a function of the kicks, the best series and the processing
  time alone, \<open>total_series\<close> is not used, and it is the formula of the claim in floats
  with the series bonus added first: \<open>round((total_kicks * 10 + (best_series_kicks * 20 +
  best_series_duration * 5)) + (total_kicks / max(processing_time, 1)) * 50 -
  processing_time * 0.1, 2)\<close>, each operation rounded to the nearest float. Where no
  operation rounds, as for whole numbers up to \<open>10^9\<close> and a processing time of 0, it is
  the exact value of the formula.
\<close>

theorem calculate_score_grouped:
  "calculate_score tk ts bsk bsd pt =
     double_round
       (real_of_int
          (round_half_even
             (fsub
                (fadd
                   (fadd (double_of_int (tk * 10))
                      (fadd (double_of_int (bsk * 20)) (fmul bsd 5)))
                   (fmul (fdiv (double_of_int tk) (max pt 1)) 50))
                (fmul pt (double_round (1 / 10))) * 100)) / 100)
   \<and> calculate_score tk ts bsk bsd pt = calculate_score tk ts' bsk bsd pt
   \<and> (0 \<le> tk \<and> tk \<le> 10 ^ 9 \<and> 0 \<le> bsk \<and> bsk \<le> 10 ^ 9 \<and> 0 \<le> n \<and> n \<le> 10 ^ 9 \<longrightarrow>
        calculate_score tk ts bsk (real_of_int n) 0
          = real_of_int (tk * 10 + bsk * 20 + n * 5 + tk * 50)
        \<and> calculate_score tk ts bsk (real_of_int n) 0 = exact_score tk bsk (real_of_int n) 0)"
proof -
  have exact: "exact_score tk bsk (real_of_int n) 0
      = real_of_int (tk * 10 + bsk * 20 + n * 5 + tk * 50)"
  proof -
    have "(real_of_int tk * 10 + real_of_int bsk * 20 + real_of_int n * 5
          + (real_of_int tk / max 0 1) * 50 - 0 * (1 / 10)) * 100
        = real_of_int ((tk * 10 + bsk * 20 + n * 5 + tk * 50) * 100)"
      by simp
    then have "round_half_even
        ((real_of_int tk * 10 + real_of_int bsk * 20 + real_of_int n * 5
          + (real_of_int tk / max 0 1) * 50 - 0 * (1 / 10)) * 100)
        = (tk * 10 + bsk * 20 + n * 5 + tk * 50) * 100"
      by (simp only: round_half_even_of_int)
    then show ?thesis
      unfolding exact_score_def by simp
  qed
  have whole: "calculate_score tk ts bsk (real_of_int n) 0
      = real_of_int (tk * 10 + bsk * 20 + n * 5 + tk * 50)"
    if "0 \<le> tk" "tk \<le> 10 ^ 9" "0 \<le> bsk" "bsk \<le> 10 ^ 9" "0 \<le> n" "n \<le> 10 ^ 9"
    using that by (rule calculate_score_integral)
  have "calculate_score tk ts bsk bsd pt =
     double_round
       (real_of_int
          (round_half_even
             (fsub
                (fadd
                   (fadd (double_of_int (tk * 10))
                      (fadd (double_of_int (bsk * 20)) (fmul bsd 5)))
                   (fmul (fdiv (double_of_int tk) (max pt 1)) 50))
                (fmul pt (double_round (1 / 10))) * 100)) / 100)"
    by (simp add: calculate_score_def py_round2_def Let_def)
  moreover have "calculate_score tk ts bsk bsd pt = calculate_score tk ts' bsk bsd pt"
    by (simp add: calculate_score_def)
  ultimately show ?thesis
    using whole exact by simp
qed

theorem calculate_score_grouped_witness:
  "calculate_score 19 7 2 d10707 0 = double_round (123353 / 100)
   \<and> double_round
       (real_of_int
          (round_half_even
             (fsub
                (fadd
                   (fadd (double_of_int (19 * 10))
                      (fadd (double_of_int (2 * 20)) (fmul d10707 5)))
                   (fmul (fdiv (double_of_int 19) (max 0 1)) 50))
                (fmul 0 (double_round (1 / 10))) * 100)) / 100) = double_round (123353 / 100)
   \<and> calculate_score 3 1 2 4 0 = 240 \<and> exact_score 3 2 4 0 = 240"
proof -
  note a = calculate_score_grouped [of 19 1 2 d10707 0 7 0]
  note b = calculate_score_grouped [of 3 1 2 4 0 1 4]
  from a have g: "calculate_score 19 1 2 d10707 0 =
      double_round
        (real_of_int
           (round_half_even
              (fsub
                 (fadd
                    (fadd (double_of_int (19 * 10))
                       (fadd (double_of_int (2 * 20)) (fmul d10707 5)))
                    (fmul (fdiv (double_of_int 19) (max 0 1)) 50))
                 (fmul 0 (double_round (1 / 10))) * 100)) / 100)"
    and t: "calculate_score 19 1 2 d10707 0 = calculate_score 19 7 2 d10707 0"
    by blast+
  have "calculate_score 19 7 2 d10707 0 = double_round (123353 / 100)"
    using t [symmetric] score_10707 [of 1] by (rule trans)
  moreover have "double_round
        (real_of_int
           (round_half_even
              (fsub
                 (fadd
                    (fadd (double_of_int (19 * 10))
                       (fadd (double_of_int (2 * 20)) (fmul d10707 5)))
                    (fmul (fdiv (double_of_int 19) (max 0 1)) 50))
                 (fmul 0 (double_round (1 / 10))) * 100)) / 100) = double_round (123353 / 100)"
    using g [symmetric] score_10707 [of 1] by (rule trans)
  moreover from b have "calculate_score 3 1 2 4 0 = 240 \<and> exact_score 3 2 4 0 = 240"
    by simp
  ultimately show ?thesis by (intro conjI) simp_all
qed

section \<open>The kick detector\<close>

lemma closest_foot_loop_some:
  "closest_foot_loop ball_pos feet (Some m, Some f) =
     (Some (Min (insert m (euclidean ball_pos ` set feet))),
      snd (closest_foot_loop ball_pos feet (Some m, Some f)))
   \<and> snd (closest_foot_loop ball_pos feet (Some m, Some f)) \<noteq> None"
proof (induction feet arbitrary: m f)
  case Nil
  show ?case by simp
next
  case (Cons g feet)
  show ?case
  proof (cases "euclidean ball_pos g < m")
    case True
    then have "min (euclidean ball_pos g) m = euclidean ball_pos g" by simp
    then have "Min (insert m (euclidean ball_pos ` set (g # feet)))
        = Min (insert (euclidean ball_pos g) (euclidean ball_pos ` set feet))"
      by (cases "feet = []") (simp_all add: Min_insert2 min.commute min.left_commute
          insert_commute)
    with True Cons.IH [of "euclidean ball_pos g" g] show ?thesis
      by (simp add: Let_def)
  next
    case False
    then have "min (euclidean ball_pos g) m = m" by simp
    then have "Min (insert m (euclidean ball_pos ` set (g # feet)))
        = Min (insert m (euclidean ball_pos ` set feet))"
      by (cases "feet = []") (simp_all add: min.commute min.left_commute insert_commute)
    with False Cons.IH [of m f] show ?thesis
      by (simp add: Let_def)
  qed
qed

lemma closest_foot_loop_start:
  "feet \<noteq> [] \<Longrightarrow>
   \<exists>f. closest_foot_loop ball_pos feet (None, None)
        = (Some (Min (euclidean ball_pos ` set feet)), Some f)"
proof (cases feet)
  case Nil
  assume "feet \<noteq> []"
  with Nil show ?thesis by simp
next
  case (Cons g rest)
  obtain f where f: "snd (closest_foot_loop ball_pos rest (Some (euclidean ball_pos g), Some g))
      = Some f"
    using closest_foot_loop_some [of ball_pos rest "euclidean ball_pos g" g] by auto
  show ?thesis
    using closest_foot_loop_some [of ball_pos rest "euclidean ball_pos g" g] f Cons
    by (auto simp: Let_def)
qed

text \<open>\<open>detect_kick\<close> by cases.\<close>

lemma detect_kick_no_feet:
  "detect_kick a ball_pos [] frame_no ts frame_height
     = ground_check a ball_pos frame_no ts frame_height"
  by (simp add: detect_kick_def within_kick_distance_def)

lemma detect_kick_blocked:
  "feet \<noteq> [] \<Longrightarrow> debounce_blocks a frame_no \<Longrightarrow>
   detect_kick a ball_pos feet frame_no ts frame_height = (None, a)"
  by (simp add: detect_kick_def debounce_blocks_def split: prod.splits)

lemma detect_kick_no_motion:
  "feet \<noteq> [] \<Longrightarrow> \<not> debounce_blocks a frame_no \<Longrightarrow> \<not> motion_test a \<Longrightarrow>
   detect_kick a ball_pos feet frame_no ts frame_height
     = ground_check a ball_pos frame_no ts frame_height"
  by (auto simp: detect_kick_def debounce_blocks_def motion_test_def Let_def
      split: prod.splits)

lemma detect_kick_up_branch:
  assumes "feet \<noteq> []" "\<not> debounce_blocks a frame_no" "motion_test a"
  shows "detect_kick a ball_pos feet frame_no ts frame_height =
     (if min_confidence_threshold \<le> up_confidence a (Min (euclidean ball_pos ` set feet))
      then Some \<lparr>frame_number = frame_no, timestamp = ts, ball_position = ball_pos,
                 kick_type = ''up'',
                 confidence = up_confidence a (Min (euclidean ball_pos ` set feet))\<rparr>
      else None,
      enter_series a)"
proof -
  obtain f where f: "closest_foot_loop ball_pos feet (None, None)
      = (Some (Min (euclidean ball_pos ` set feet)), Some f)"
    using closest_foot_loop_start [OF assms(1)] by blast
  obtain vx vy where v: "calculate_ball_velocity a = (vx, vy)"
    by (cases "calculate_ball_velocity a")
  have mt: "trajectory_change_threshold < calculate_trajectory_change a"
    "velocity_threshold < \<bar>vy\<bar>" "vy < 0"
    using assms(3) v by (auto simp: motion_test_def)
  have nb: "(kicks a \<noteq> [] \<and> frame_no - frame_number (last (kicks a)) < min_kick_interval)
      = False"
    using assms(2) by (simp add: debounce_blocks_def)
  have conf: "up_confidence a (Min (euclidean ball_pos ` set feet)) =
      (min 1 (calculate_trajectory_change a / 45) * (4 / 10) + min 1 (\<bar>vy\<bar> / 20) * (4 / 10)
       + (if within_kick_distance (Some (Min (euclidean ball_pos ` set feet))) then 1 else 1 / 2)
         * (2 / 10))
      * (if within_kick_distance (Some (Min (euclidean ball_pos ` set feet))) then 1 else 7 / 10)"
    by (simp only: up_confidence_def within_kick_distance_def v snd_conv option.case)
  show ?thesis
  proof (cases "in_juggling_series a")
    case True
    then have "enter_series a = a\<lparr>current_series_kicks := current_series_kicks a + 1\<rparr>"
      by (simp add: enter_series_def)
    with True show ?thesis
      unfolding detect_kick_def f v conf
      using mt assms(1) by (simp add: Let_def nb)
  next
    case False
    then have "enter_series a = a\<lparr>in_juggling_series := True, current_series_kicks := 1\<rparr>"
      by (simp add: enter_series_def)
    with False show ?thesis
      unfolding detect_kick_def f v conf
      using mt assms(1) by (simp add: Let_def nb)
  qed
qed

section \<open>Evaluation of the example runs\<close>

lemma euclidean_same_x: "euclidean (x, y) (x, y') = \<bar>y - y'\<bar>"
  by (simp add: euclidean_def)

lemma euclidean_same_y: "euclidean (x, y) (x', y) = \<bar>x - x'\<bar>"
  by (simp add: euclidean_def)

lemma degrees_atan2_up: "y < 0 \<Longrightarrow> degrees (atan2 y 0) = - 90"
  by (simp add: atan2_def degrees_def)

lemma degrees_atan2_down: "0 < y \<Longrightarrow> degrees (atan2 y 0) = 90"
  by (simp add: atan2_def degrees_def)

lemma arctan_sqrt3: "arctan (sqrt 3) = pi / 3"
proof (rule arctan_unique)
  have "0 < pi" by (rule pi_gt_zero)
  then show "- (pi / 2) < pi / 3" by linarith
  show "pi / 3 < pi / 2" by simp
  show "tan (pi / 3) = sqrt 3" by (rule tan_60)
qed

lemma degrees_atan2_60: "degrees (atan2 (- (10 * sqrt 3)) 10) = - 60"
  by (simp add: atan2_def degrees_def arctan_minus arctan_sqrt3)

lemma bounce_velocity: "calculate_ball_velocity bounce_state = (0, - 10)"
  by (simp add: calculate_ball_velocity_def bounce_state_def)

lemma bounce_trajectory: "calculate_trajectory_change bounce_state = 180"
  by (simp add: calculate_trajectory_change_def bounce_state_def degrees_atan2_up
      degrees_atan2_down Let_def)

lemma bounce_motion: "motion_test bounce_state"
  by (simp add: motion_test_def bounce_velocity bounce_trajectory
      trajectory_change_threshold_def velocity_threshold_def)

lemma bounce_free: "\<not> debounce_blocks bounce_state n"
  by (simp add: debounce_blocks_def bounce_state_def)

lemma bounce_confidence_far: "up_confidence bounce_state 1000 = 49 / 100"
  by (simp add: up_confidence_def bounce_velocity bounce_trajectory kick_distance_threshold_def)

lemma bounce_confidence_near: "up_confidence bounce_state 100 = 8 / 10"
  by (simp add: up_confidence_def bounce_velocity bounce_trajectory kick_distance_threshold_def)

lemma turn30_velocity: "calculate_ball_velocity turn30_state = (0, - 10)"
  by (simp add: calculate_ball_velocity_def turn30_state_def)

lemma turn30_trajectory: "calculate_trajectory_change turn30_state = 30"
  by (simp add: calculate_trajectory_change_def turn30_state_def degrees_atan2_up
      degrees_atan2_60 Let_def)

lemma slow_movement_same_x:
  "last_ball_position a = Some (x, y') \<Longrightarrow> slow_movement a (x, y) \<longleftrightarrow> \<bar>y - y'\<bar> < 10"
  by (simp add: slow_movement_def ball_movement_threshold_def)

lemma slow_movement_fresh: "last_ball_position a = None \<Longrightarrow> \<not> slow_movement a p"
  by (simp add: slow_movement_def)

lemma process_frame_stride: "n mod 4 \<noteq> 0 \<Longrightarrow> process_frame a fps h n fr = a"
  by (simp add: process_frame_def frame_skip_def)

lemma process_frame_slow:
  "ball_detection fr = Some (x, y, c) \<Longrightarrow> slow_movement a (x, y) \<Longrightarrow>
   process_frame a fps h n fr = a"
  by (simp add: process_frame_def)

lemma process_frame_track:
  "n mod 4 = 0 \<Longrightarrow> ball_detection fr = Some (x, y, c) \<Longrightarrow> \<not> slow_movement a (x, y) \<Longrightarrow>
   length (velocity_history (track_ball a (x, y))) < 3 \<Longrightarrow>
   process_frame a fps h n fr = track_ball a (x, y)"
  by (simp add: process_frame_def frame_skip_def Let_def)

lemma process_frame_detect:
  "n mod 4 = 0 \<Longrightarrow> ball_detection fr = Some (x, y, c) \<Longrightarrow> \<not> slow_movement a (x, y) \<Longrightarrow>
   3 \<le> length (velocity_history (track_ball a (x, y))) \<Longrightarrow>
   detect_kick (track_ball a (x, y)) (x, y) (feet_detection fr) n (real_of_int n / fps) h
     = (res, a2) \<Longrightarrow>
   process_frame a fps h n fr =
     (case res of Some kick \<Rightarrow> a2\<lparr>kicks := kicks a2 @ [kick]\<rparr> | None \<Rightarrow> a2)"
  by (simp add: process_frame_def frame_skip_def Let_def split: option.splits)

text \<open>The fresh run up to the call of \<open>detect_kick\<close> on frame 8.\<close>

lemma track_first:
  "track_ball (init_analyzer\<lparr>last_ball_position := q\<rparr>) p =
     \<lparr>ball_history = [p], velocity_history = [(0, 0)], kicks = [],
      current_series_kicks = 0, in_juggling_series = False, last_ball_position = Some p\<rparr>"
  by (simp add: track_ball_def init_analyzer_def calculate_ball_velocity_def
      velocity_history_size_def Let_def)

lemma track_second:
  "track_ball
     \<lparr>ball_history = [(x0, y0)], velocity_history = [(0, 0)], kicks = [],
      current_series_kicks = 0, in_juggling_series = False, last_ball_position = q\<rparr> (x1, y1) =
     \<lparr>ball_history = [(x0, y0), (x1, y1)], velocity_history = [(0, 0), (x1 - x0, y1 - y0)],
      kicks = [], current_series_kicks = 0, in_juggling_series = False,
      last_ball_position = Some (x1, y1)\<rparr>"
  by (simp add: track_ball_def calculate_ball_velocity_def velocity_history_size_def Let_def)

lemma track_third:
  "track_ball
     \<lparr>ball_history = [p0, (x1, y1)], velocity_history = [v0, v1], kicks = ks,
      current_series_kicks = c, in_juggling_series = s, last_ball_position = q\<rparr> (x2, y2) =
     \<lparr>ball_history = [p0, (x1, y1), (x2, y2)], velocity_history = [v0, v1, (x2 - x1, y2 - y1)],
      kicks = ks, current_series_kicks = c, in_juggling_series = s,
      last_ball_position = Some (x2, y2)\<rparr>"
  by (simp add: track_ball_def calculate_ball_velocity_def velocity_history_size_def Let_def)

lemma track_fourth:
  "track_ball
     \<lparr>ball_history = [p0, p1, (x2, y2)], velocity_history = [v0, v1, v2], kicks = ks,
      current_series_kicks = c, in_juggling_series = s, last_ball_position = q\<rparr> (x3, y3) =
     \<lparr>ball_history = [p0, p1, (x2, y2), (x3, y3)],
      velocity_history = [v0, v1, v2, (x3 - x2, y3 - y2)],
      kicks = ks, current_series_kicks = c, in_juggling_series = s,
      last_ball_position = Some (x3, y3)\<rparr>"
  by (simp add: track_ball_def calculate_ball_velocity_def velocity_history_size_def Let_def)

lemma bounce_prefix:
  assumes "detect_kick bounce_state (0, 515) feet 8 (8 / 30) 1080 = (res, a2)"
  shows "frames_loop init_analyzer 30 1080 0
      (ball_frame 0 500 [] # no_ball # no_ball # no_ball
       # ball_frame 0 525 [] # no_ball # no_ball # no_ball
       # ball_frame 0 515 feet # rest) =
     frames_loop (case res of Some kick \<Rightarrow> a2\<lparr>kicks := kicks a2 @ [kick]\<rparr> | None \<Rightarrow> a2)
       30 1080 9 rest"
proof -
  let ?t0 = "\<lparr>ball_history = [(0, 500)], velocity_history = [(0, 0)], kicks = [],
      current_series_kicks = 0, in_juggling_series = False,
      last_ball_position = Some (0, 500)\<rparr>"
  let ?t1 = "\<lparr>ball_history = [(0, 500), (0, 525)], velocity_history = [(0, 0), (0, 25)],
      kicks = [], current_series_kicks = 0, in_juggling_series = False,
      last_ball_position = Some (0, 525)\<rparr>"
  have t0: "track_ball init_analyzer (0, 500) = ?t0"
    using track_first [of None "(0, 500)"] by (simp add: init_analyzer_def)
  have l0: "last_ball_position init_analyzer = None"
    by (simp add: init_analyzer_def)
  have t1: "track_ball ?t0 (0, 525) = ?t1"
    by (simp add: track_second)
  have t2: "track_ball ?t1 (0, 515) = bounce_state"
    by (simp add: track_third bounce_state_def)
  have s0: "process_frame init_analyzer 30 1080 0 (ball_frame 0 500 []) = ?t0"
    using process_frame_track [of 0 "ball_frame 0 500 []" 0 500 "9 / 10" init_analyzer 30 1080]
    by (simp add: t0 ball_frame_def slow_movement_fresh l0)
  have s4: "process_frame ?t0 30 1080 4 (ball_frame 0 525 []) = ?t1"
    using process_frame_track [of 4 "ball_frame 0 525 []" 0 525 "9 / 10" ?t0 30 1080]
    by (simp add: t1 ball_frame_def slow_movement_same_x)
  have s8: "process_frame ?t1 30 1080 8 (ball_frame 0 515 feet)
      = (case res of Some kick \<Rightarrow> a2\<lparr>kicks := kicks a2 @ [kick]\<rparr> | None \<Rightarrow> a2)"
    using process_frame_detect [of 8 "ball_frame 0 515 feet" 0 515 "9 / 10" ?t1
        30 1080 res a2] assms
    by (simp add: t2 ball_frame_def slow_movement_same_x) (simp add: bounce_state_def)
  show ?thesis
    by (simp add: process_frame_stride s0 s4 s8)
qed

lemma bounce_suffix:
  "frames_loop
     \<lparr>ball_history = [(0, 500), (0, 525), (0, 515)],
      velocity_history = [(0, 0), (0, 25), (0, - 10)],
      kicks = ks, current_series_kicks = 1, in_juggling_series = True,
      last_ball_position = Some (0, 515)\<rparr>
     30 1080 9 [no_ball, no_ball, no_ball, ball_frame 0 1000 []]
   = bounce_end (ks @ [ground12])"
proof -
  let ?s = "\<lparr>ball_history = [(0, 500), (0, 525), (0, 515)],
      velocity_history = [(0, 0), (0, 25), (0, - 10)],
      kicks = ks, current_series_kicks = 1, in_juggling_series = True,
      last_ball_position = Some (0, 515)\<rparr>"
  let ?t = "\<lparr>ball_history = [(0, 500), (0, 525), (0, 515), (0, 1000)],
      velocity_history = [(0, 0), (0, 25), (0, - 10), (0, 485)],
      kicks = ks, current_series_kicks = 1, in_juggling_series = True,
      last_ball_position = Some (0, 1000)\<rparr>"
  have t: "track_ball ?s (0, 1000) = ?t"
    by (simp add: track_fourth)
  have g: "detect_kick ?t (0, 1000) [] 12 (12 / 30) 1080
      = (Some ground12, ?t\<lparr>in_juggling_series := False\<rparr>)"
    by (simp add: detect_kick_no_feet ground_check_def is_ball_near_ground_def
        ground_threshold_def ground12_def)
  have "process_frame ?s 30 1080 12 (ball_frame 0 1000 []) = bounce_end (ks @ [ground12])"
    using process_frame_detect [of 12 "ball_frame 0 1000 []" 0 1000 "9 / 10" ?s
        30 1080 "Some ground12" "?t\<lparr>in_juggling_series := False\<rparr>"] g
    by (simp add: t ball_frame_def slow_movement_same_x bounce_end_def)
  then show ?thesis
    by (simp add: process_frame_stride)
qed

lemma frames_loop_append:
  "frames_loop a fps h n (xs @ ys)
     = frames_loop (frames_loop a fps h n xs) fps h (n + int (length xs)) ys"
  by (induction xs arbitrary: a n) (simp_all add: add.assoc)

lemma bounce_run:
  assumes "detect_kick bounce_state (0, 515) feet 8 (8 / 30) 1080
      = (res, enter_series bounce_state)"
  shows "frames_loop init_analyzer 30 1080 0 (cap_frames (bounce_video feet))
     = bounce_end ((case res of None \<Rightarrow> [] | Some k \<Rightarrow> [k]) @ [ground12])"
proof -
  let ?pre = "[ball_frame 0 500 [], no_ball, no_ball, no_ball,
       ball_frame 0 525 [], no_ball, no_ball, no_ball, ball_frame 0 515 feet]"
  let ?suf = "[no_ball, no_ball, no_ball, ball_frame 0 1000 []]"
  let ?mid = "\<lparr>ball_history = [(0, 500), (0, 525), (0, 515)],
      velocity_history = [(0, 0), (0, 25), (0, - 10)],
      kicks = (case res of None \<Rightarrow> [] | Some k \<Rightarrow> [k]), current_series_kicks = 1,
      in_juggling_series = True, last_ball_position = Some (0, 515)\<rparr>"
  have frames: "cap_frames (bounce_video feet) = ?pre @ ?suf"
    by (simp add: bounce_video_def)
  have "frames_loop init_analyzer 30 1080 0 (?pre @ [])
      = frames_loop (case res of Some kick \<Rightarrow> (enter_series bounce_state)
            \<lparr>kicks := kicks (enter_series bounce_state) @ [kick]\<rparr>
          | None \<Rightarrow> enter_series bounce_state) 30 1080 9 []"
    using bounce_prefix [OF assms, of "[]"] by (simp only: append_Cons append_Nil)
  also have "\<dots> = ?mid"
    by (cases res) (simp_all add: enter_series_def bounce_state_def)
  finally have pre: "frames_loop init_analyzer 30 1080 0 ?pre = ?mid"
    by (simp only: append_Nil2)
  have "frames_loop init_analyzer 30 1080 0 (?pre @ ?suf)
      = frames_loop (frames_loop init_analyzer 30 1080 0 ?pre) 30 1080
          (0 + int (length ?pre)) ?suf"
    by (rule frames_loop_append)
  also have "\<dots> = frames_loop ?mid 30 1080 9 ?suf"
    by (simp only: pre) simp
  also have "\<dots> = bounce_end ((case res of None \<Rightarrow> [] | Some k \<Rightarrow> [k]) @ [ground12])"
    by (rule bounce_suffix)
  finally show ?thesis
    by (simp only: frames)
qed

lemma bounce_detect_far:
  "detect_kick bounce_state (0, 515) [(1000, 515)] 8 (8 / 30) 1080
     = (None, enter_series bounce_state)"
  using detect_kick_up_branch [of "[(1000, 515)]" bounce_state 8 "(0, 515)" "8 / 30" 1080]
    bounce_motion bounce_free
  by (simp add: euclidean_same_y bounce_confidence_far min_confidence_threshold_def)

lemma bounce_detect_near:
  "detect_kick bounce_state (0, 515) [(0, 615)] 8 (8 / 30) 1080
     = (Some up8, enter_series bounce_state)"
  using detect_kick_up_branch [of "[(0, 615)]" bounce_state 8 "(0, 515)" "8 / 30" 1080]
    bounce_motion bounce_free
  by (simp add: euclidean_same_x bounce_confidence_near min_confidence_threshold_def up8_def)

lemma bounce_run_far:
  "frames_loop init_analyzer 30 1080 0 (cap_frames (bounce_video [(1000, 515)]))
     = bounce_end [ground12]"
  using bounce_run [OF bounce_detect_far] by simp

lemma bounce_run_near:
  "frames_loop init_analyzer 30 1080 0 (cap_frames (bounce_video [(0, 615)]))
     = bounce_end [up8, ground12]"
  using bounce_run [OF bounce_detect_near] by simp

lemma reset_run_init: "reset_run init_analyzer = init_analyzer"
  by (simp add: reset_run_def init_analyzer_def)

section \<open>Claims about detect_kick\<close>

lemma turn30_motion: "motion_test turn30_state"
  by (simp add: motion_test_def turn30_velocity turn30_trajectory
      trajectory_change_threshold_def velocity_threshold_def)

lemma turn30_free: "\<not> debounce_blocks turn30_state n"
  by (simp add: debounce_blocks_def turn30_state_def)

lemma confidence_30_10_350:
  assumes "calculate_trajectory_change a = 30" and "snd (calculate_ball_velocity a) = - 10"
  shows "up_confidence a 350 = 2 / 3"
  using assms by (simp add: up_confidence_def kick_distance_threshold_def)

text \<open>
  C3, as stated, fails: in a state with a change of trajectory of 30 degrees and a
  vertical velocity of \<open>-10\<close>, with the only foot 350 pixels away, the confidence is
  \<open>2/3\<close>, not below the threshold \<open>0.6\<close>, and \<open>detect_kick\<close> returns an "up" kick.
\<close>

theorem confidence_example_counterexample:
  "calculate_trajectory_change turn30_state = 30
   \<and> snd (calculate_ball_velocity turn30_state) = - 10
   \<and> euclidean (0, 350) (0, 0) = 350
   \<and> (4 / 10 * (30 / 45) + 4 / 10 * (10 / 20) + 2 / 10 * 1) * 1 = (2 / 3 :: real)
   \<and> \<not> (2 / 3 < min_confidence_threshold)
   \<and> fst (detect_kick turn30_state (0, 350) [(0, 0)] 8 (8 / 30) 1080)
       = Some \<lparr>frame_number = 8, timestamp = 8 / 30, ball_position = (0, 350),
               kick_type = ''up'', confidence = 2 / 3\<rparr>"
proof -
  have d: "Min (euclidean (0, 350) ` set [(0, 0)]) = 350"
    by (simp add: euclidean_same_x)
  have c: "up_confidence turn30_state 350 = 2 / 3"
    by (rule confidence_30_10_350) (simp_all add: turn30_trajectory turn30_velocity)
  have "detect_kick turn30_state (0, 350) [(0, 0)] 8 (8 / 30) 1080 =
      (Some \<lparr>frame_number = 8, timestamp = 8 / 30, ball_position = (0, 350),
              kick_type = ''up'', confidence = 2 / 3\<rparr>, enter_series turn30_state)"
    using detect_kick_up_branch [of "[(0, 0)]" turn30_state 8 "(0, 350)" "8 / 30" 1080]
      turn30_motion turn30_free
    by (simp add: euclidean_same_x c min_confidence_threshold_def)
  then show ?thesis
    by (simp add: turn30_trajectory turn30_velocity euclidean_same_x
        min_confidence_threshold_def)
qed

text \<open>
  C3, amended. With a change of trajectory of 30 degrees, a vertical velocity of \<open>-10\<close>
  and the nearest foot 350 pixels away, the confidence is
  \<open>(0.4 * (30/45) + 0.4 * (10/20) + 0.2 * 1.0) * 1.0 = 2/3\<close>, which is not below the
  threshold, and \<open>detect_kick\<close>, when the debounce interval has passed, returns an "up"
  kick with that confidence and enters the series.
\<close>

theorem confidence_example_emits_up:
  assumes "calculate_trajectory_change a = 30" and "snd (calculate_ball_velocity a) = - 10"
    and "feet \<noteq> []" and "Min (euclidean ball_pos ` set feet) = 350"
    and "\<not> debounce_blocks a frame_no"
  shows "up_confidence a 350 = 2 / 3 \<and> min_confidence_threshold \<le> up_confidence a 350
     \<and> detect_kick a ball_pos feet frame_no ts frame_height =
         (Some \<lparr>frame_number = frame_no, timestamp = ts, ball_position = ball_pos,
                 kick_type = ''up'', confidence = 2 / 3\<rparr>, enter_series a)"
proof -
  have m: "motion_test a"
    using assms(1,2)
    by (simp add: motion_test_def trajectory_change_threshold_def velocity_threshold_def)
  have c: "up_confidence a 350 = 2 / 3"
    using assms(1,2) by (rule confidence_30_10_350)
  show ?thesis
    using detect_kick_up_branch [OF assms(3,5) m, of ball_pos ts frame_height]
    by (simp add: assms(4) c min_confidence_threshold_def)
qed

theorem confidence_example_emits_up_witness:
  "calculate_trajectory_change turn30_state = 30
   \<and> snd (calculate_ball_velocity turn30_state) = - 10
   \<and> Min (euclidean (0, 350) ` set [(0, 0)]) = 350
   \<and> \<not> debounce_blocks turn30_state 8
   \<and> detect_kick turn30_state (0, 350) [(0, 0)] 8 (8 / 30) 1080 =
       (Some \<lparr>frame_number = 8, timestamp = 8 / 30, ball_position = (0, 350),
               kick_type = ''up'', confidence = 2 / 3\<rparr>,
        turn30_state\<lparr>in_juggling_series := True, current_series_kicks := 1\<rparr>)"
proof -
  have t: "calculate_trajectory_change turn30_state = 30"
    by (rule turn30_trajectory)
  have v: "snd (calculate_ball_velocity turn30_state) = - 10"
    by (simp add: turn30_velocity)
  have f: "[(0, 0) :: position] \<noteq> []"
    by simp
  have d: "Min (euclidean (0, 350) ` set [(0, 0)]) = 350"
    by (simp add: euclidean_same_x)
  have e: "enter_series turn30_state
      = turn30_state\<lparr>in_juggling_series := True, current_series_kicks := 1\<rparr>"
    by (simp add: enter_series_def turn30_state_def)
  show ?thesis
    using confidence_example_emits_up [OF t v f d turn30_free [of 8], of "8 / 30" 1080]
      t v d turn30_free [of 8]
    by (simp add: e)
qed

text \<open>
  C9. When a foot was detected, the debounce interval has passed and the motion test
  holds, but the confidence is below \<open>min_confidence_threshold\<close>, \<open>detect_kick\<close> returns
  no kick and an analyzer whose \<open>in_juggling_series\<close> is true and whose
  \<open>current_series_kicks\<close> is one more than before (one, when no series was active): the
  detector enters a series without an "up" kick.
\<close>

theorem detect_kick_silent_series_entry:
  assumes "feet \<noteq> []" and "\<not> debounce_blocks a frame_no" and "motion_test a"
    and "up_confidence a (Min (euclidean ball_pos ` set feet)) < min_confidence_threshold"
  shows "detect_kick a ball_pos feet frame_no ts frame_height = (None, enter_series a)
     \<and> in_juggling_series (enter_series a)
     \<and> current_series_kicks (enter_series a)
         = (if in_juggling_series a then current_series_kicks a else 0) + 1
     \<and> kicks (enter_series a) = kicks a"
  using detect_kick_up_branch [OF assms(1,2,3), of ball_pos ts frame_height] assms(4)
  by (simp add: enter_series_def)

theorem detect_kick_silent_series_entry_witness:
  "\<not> in_juggling_series bounce_state \<and> kicks bounce_state = []
   \<and> motion_test bounce_state
   \<and> up_confidence bounce_state (Min (euclidean (0, 515) ` set [(1000, 515)])) = 49 / 100
   \<and> detect_kick bounce_state (0, 515) [(1000, 515)] 8 (8 / 30) 1080 =
       (None, bounce_state\<lparr>in_juggling_series := True, current_series_kicks := 1\<rparr>)"
proof -
  have f: "[(1000, 515) :: position] \<noteq> []"
    by simp
  have d: "Min (euclidean (0, 515) ` set [(1000, 515)]) = 1000"
    by (simp add: euclidean_same_y)
  have c: "up_confidence bounce_state (Min (euclidean (0, 515) ` set [(1000, 515)]))
      < min_confidence_threshold"
    by (simp add: euclidean_same_y bounce_confidence_far min_confidence_threshold_def)
  have e: "enter_series bounce_state
      = bounce_state\<lparr>in_juggling_series := True, current_series_kicks := 1\<rparr>"
    by (simp add: enter_series_def bounce_state_def)
  show ?thesis
    using detect_kick_silent_series_entry [OF f bounce_free [of 8] bounce_motion c,
        of "8 / 30" 1080] bounce_motion
    by (simp add: e euclidean_same_y bounce_confidence_far) (simp add: bounce_state_def)
qed

section \<open>Claims about a run of analyze_video\<close>

lemma analyze_video_eval:
  assumes "frames_loop (reset_run a) 30 1080 0 (cap_frames video) = a1"
    and "cap_fps video = 30" and "cap_frame_height video = 1080"
    and "series_loop (kicks a1) [] None 0 None = Inr series"
  shows "analyze_video a name video elapsed =
     Inr (\<lparr>va_video_name = name,
           va_total_kicks = int (length (filter (\<lambda>k. kick_type k = ''up'') (kicks a1))),
           va_total_series = int (length series), va_kicks = kicks a1, va_series = series,
           va_fps = 30, va_duration = real_of_int (cap_frame_count video) / 30,
           va_processing_time = elapsed\<rparr>, a1)"
  using assms by (simp add: analyze_video_def analyze_juggling_series_def Let_def)

lemma reuse_run:
  "frames_loop (reset_run leftover_state) 30 1080 0
     (no_ball # tl (cap_frames (bounce_video feet))) = reuse_end"
proof -
  let ?r = "init_analyzer\<lparr>last_ball_position := Some (0, 505)\<rparr>"
  let ?t0 = "\<lparr>ball_history = [(0, 525)], velocity_history = [(0, 0)], kicks = [],
      current_series_kicks = 0, in_juggling_series = False,
      last_ball_position = Some (0, 525)\<rparr>"
  let ?t1 = "\<lparr>ball_history = [(0, 525), (0, 515)], velocity_history = [(0, 0), (0, - 10)],
      kicks = [], current_series_kicks = 0, in_juggling_series = False,
      last_ball_position = Some (0, 515)\<rparr>"
  let ?t2 = "\<lparr>ball_history = [(0, 525), (0, 515), (0, 1000)],
      velocity_history = [(0, 0), (0, - 10), (0, 485)],
      kicks = [], current_series_kicks = 0, in_juggling_series = False,
      last_ball_position = Some (0, 1000)\<rparr>"
  have r: "reset_run leftover_state = ?r"
    by (simp add: reset_run_def leftover_state_def init_analyzer_def)
  have l: "last_ball_position ?r = Some (0, 505)"
    by simp
  have s4: "process_frame ?r 30 1080 4 (ball_frame 0 525 []) = ?t0"
    using process_frame_track [of 4 "ball_frame 0 525 []" 0 525 "9 / 10" ?r 30 1080]
      slow_movement_same_x [OF l, of 525]
    by (simp add: track_first ball_frame_def)
  have s8: "process_frame ?t0 30 1080 8 (ball_frame 0 515 feet) = ?t1"
    using process_frame_track [of 8 "ball_frame 0 515 feet" 0 515 "9 / 10" ?t0 30 1080]
    by (simp add: track_second ball_frame_def slow_movement_same_x)
  have g: "detect_kick ?t2 (0, 1000) [] 12 (12 / 30) 1080 = (None, ?t2)"
    by (simp add: detect_kick_no_feet ground_check_def)
  have s12: "process_frame ?t1 30 1080 12 (ball_frame 0 1000 []) = ?t2"
    using process_frame_detect [of 12 "ball_frame 0 1000 []" 0 1000 "9 / 10" ?t1
        30 1080 None ?t2] g
    by (simp add: track_third ball_frame_def slow_movement_same_x)
  have n: "process_frame b 30 1080 k no_ball = b" for b k
    by (simp add: process_frame_def no_ball_def)
  show ?thesis
    unfolding r
    by (simp add: bounce_video_def n s4 s8 s12 reuse_end_def)
qed

text \<open>
  C10. The assignments that open a run empty both histories and the kicks and clear the
  series counter and flag, and leave \<open>last_ball_position\<close> as the previous run left it.
  So when the first frame of the next video shows the ball closer than
  \<open>ball_movement_threshold\<close> to that leftover position, the run is the one of the video
  with no ball on its first frame; on an analyzer without a last position the first
  frame with a ball is tracked.
\<close>

theorem analyze_video_keeps_last_ball_position:
  "ball_history (reset_run a) = [] \<and> velocity_history (reset_run a) = []
   \<and> kicks (reset_run a) = [] \<and> current_series_kicks (reset_run a) = 0
   \<and> \<not> in_juggling_series (reset_run a)
   \<and> last_ball_position (reset_run a) = last_ball_position a
   \<and> (\<forall>p fr rest x y c.
         last_ball_position a = Some p \<and> cap_frames video = fr # rest
         \<and> ball_detection fr = Some (x, y, c)
         \<and> sqrt ((x - fst p)\<^sup>2 + (y - snd p)\<^sup>2) < ball_movement_threshold \<longrightarrow>
         analyze_video a name video elapsed
           = analyze_video a name (video\<lparr>cap_frames := no_ball # rest\<rparr>) elapsed)
   \<and> (\<forall>fr x y c.
         last_ball_position a = None \<and> ball_detection fr = Some (x, y, c) \<longrightarrow>
         ball_history (process_frame (reset_run a) fps h 0 fr) = [(x, y)]
         \<and> last_ball_position (process_frame (reset_run a) fps h 0 fr) = Some (x, y))"
proof -
  have skip: "analyze_video a name video elapsed
      = analyze_video a name (video\<lparr>cap_frames := no_ball # rest\<rparr>) elapsed"
    if "last_ball_position a = Some p" "cap_frames video = fr # rest"
      "ball_detection fr = Some (x, y, c)"
      "sqrt ((x - fst p)\<^sup>2 + (y - snd p)\<^sup>2) < ball_movement_threshold"
    for p fr rest x y c
  proof -
    have "slow_movement (reset_run a) (x, y)"
      using that(1,4) by (simp add: slow_movement_def reset_run_def)
    then have "process_frame (reset_run a) f hh 0 fr = process_frame (reset_run a) f hh 0 no_ball"
      for f hh
      using that(3) by (simp add: process_frame_def no_ball_def)
    then show ?thesis
      using that(2) by (simp add: analyze_video_def)
  qed
  have fresh: "ball_history (process_frame (reset_run a) fps h 0 fr) = [(x, y)]
      \<and> last_ball_position (process_frame (reset_run a) fps h 0 fr) = Some (x, y)"
    if "last_ball_position a = None" "ball_detection fr = Some (x, y, c)" for fr x y c
  proof -
    have "\<not> slow_movement (reset_run a) (x, y)"
      using that(1) by (simp add: slow_movement_def reset_run_def)
    moreover have "track_ball (reset_run a) (x, y) =
        (reset_run a)\<lparr>last_ball_position := Some (x, y), ball_history := [(x, y)],
          velocity_history := [(0, 0)]\<rparr>"
      by (simp add: track_ball_def reset_run_def calculate_ball_velocity_def
          velocity_history_size_def Let_def)
    ultimately show ?thesis
      using that(2) process_frame_track [of 0 fr x y c "reset_run a" fps h]
      by simp
  qed
  show ?thesis
    using skip fresh by (simp add: reset_run_def)
qed

theorem analyze_video_keeps_last_ball_position_witness:
  "analyze_video init_analyzer ''a.mp4'' prev_video 1 =
     Inr (\<lparr>va_video_name = ''a.mp4'', va_total_kicks = 0, va_total_series = 0, va_kicks = [],
           va_series = [], va_fps = 30, va_duration = 1 / 30, va_processing_time = 1\<rparr>,
          leftover_state)
   \<and> last_ball_position leftover_state = Some (0, 505)
   \<and> analyze_video leftover_state ''b.mp4'' (bounce_video [(0, 615)]) 1 =
       Inr (\<lparr>va_video_name = ''b.mp4'', va_total_kicks = 0, va_total_series = 0,
             va_kicks = [], va_series = [], va_fps = 30, va_duration = 13 / 30,
             va_processing_time = 1\<rparr>, reuse_end)
   \<and> analyze_video init_analyzer ''b.mp4'' (bounce_video [(0, 615)]) 1 =
       Inr (\<lparr>va_video_name = ''b.mp4'', va_total_kicks = 1, va_total_series = 1,
             va_kicks = [up8, ground12],
             va_series = [\<lparr>start_frame = 8, end_frame = 12, kicks_count = 1,
                           duration = 4 / 30\<rparr>],
             va_fps = 30, va_duration = 13 / 30, va_processing_time = 1\<rparr>,
            bounce_end [up8, ground12])"
proof -
  let ?v = "bounce_video [(0, 615)]"
  have first: "analyze_video init_analyzer ''a.mp4'' prev_video 1 =
     Inr (\<lparr>va_video_name = ''a.mp4'', va_total_kicks = 0, va_total_series = 0, va_kicks = [],
           va_series = [], va_fps = 30, va_duration = 1 / 30, va_processing_time = 1\<rparr>,
          leftover_state)"
  proof -
    have "process_frame init_analyzer 30 1080 0 (ball_frame 0 505 []) = leftover_state"
      using process_frame_track [of 0 "ball_frame 0 505 []" 0 505 "9 / 10" init_analyzer 30 1080]
        track_first [of None "(0, 505)"] slow_movement_fresh [of init_analyzer "(0, 505)"]
      by (simp add: ball_frame_def leftover_state_def) (simp add: init_analyzer_def)
    then have "frames_loop (reset_run init_analyzer) 30 1080 0 (cap_frames prev_video)
        = leftover_state"
      by (simp add: reset_run_init prev_video_def)
    from analyze_video_eval [OF this, of "[]" "''a.mp4''" 1] show ?thesis
      by (simp add: prev_video_def leftover_state_def)
  qed
  have l: "last_ball_position leftover_state = Some (0, 505)"
    by (simp add: leftover_state_def)
  have c: "cap_frames ?v = ball_frame 0 500 [] # tl (cap_frames ?v)"
    by (simp add: bounce_video_def)
  have b: "ball_detection (ball_frame 0 500 []) = Some (0, 500, 9 / 10)"
    by (simp add: ball_frame_def)
  have near: "sqrt ((0 - fst (0 :: real, 505 :: real))\<^sup>2 + (500 - snd (0 :: real, 505 :: real))\<^sup>2)
      < ball_movement_threshold"
    by (simp add: ball_movement_threshold_def)
  have "analyze_video leftover_state ''b.mp4'' ?v 1
      = analyze_video leftover_state ''b.mp4''
          (?v\<lparr>cap_frames := no_ball # tl (cap_frames ?v)\<rparr>) 1"
    using analyze_video_keeps_last_ball_position [of leftover_state ?v "''b.mp4''" 1] l c b near
    by blast
  also have "\<dots> =
       Inr (\<lparr>va_video_name = ''b.mp4'', va_total_kicks = 0, va_total_series = 0,
             va_kicks = [], va_series = [], va_fps = 30, va_duration = 13 / 30,
             va_processing_time = 1\<rparr>, reuse_end)"
  proof -
    have "frames_loop (reset_run leftover_state) 30 1080 0
        (cap_frames (?v\<lparr>cap_frames := no_ball # tl (cap_frames ?v)\<rparr>)) = reuse_end"
      using reuse_run [of "[(0, 615)]"] by simp
    from analyze_video_eval [OF this, of "[]" "''b.mp4''" 1] show ?thesis
      by (simp add: bounce_video_def reuse_end_def)
  qed
  finally have second: "analyze_video leftover_state ''b.mp4'' ?v 1 =
       Inr (\<lparr>va_video_name = ''b.mp4'', va_total_kicks = 0, va_total_series = 0,
             va_kicks = [], va_series = [], va_fps = 30, va_duration = 13 / 30,
             va_processing_time = 1\<rparr>, reuse_end)" .
  have third: "analyze_video init_analyzer ''b.mp4'' ?v 1 =
       Inr (\<lparr>va_video_name = ''b.mp4'', va_total_kicks = 1, va_total_series = 1,
             va_kicks = [up8, ground12],
             va_series = [\<lparr>start_frame = 8, end_frame = 12, kicks_count = 1,
                           duration = 4 / 30\<rparr>],
             va_fps = 30, va_duration = 13 / 30, va_processing_time = 1\<rparr>,
            bounce_end [up8, ground12])"
  proof -
    have "frames_loop (reset_run init_analyzer) 30 1080 0 (cap_frames ?v)
        = bounce_end [up8, ground12]"
      by (simp only: reset_run_init bounce_run_near)
    from analyze_video_eval [OF this,
        of "[\<lparr>start_frame = 8, end_frame = 12, kicks_count = 1, duration = 4 / 30\<rparr>]"
          "''b.mp4''" 1]
    show ?thesis
      by (simp add: bounce_video_def bounce_end_def up8_def ground12_def)
  qed
  from first l second third show ?thesis
    by (intro conjI)
qed

text \<open>
  C1, as stated, fails. On frame 8 of the video the motion test holds, the only foot is
  1000 pixels away and the confidence 0.49 is below the threshold, so no "up" kick is
  returned, yet the series flag is set; on frame 12 the ball is at the ground and a
  "ground" kick is returned. The run records that "ground" kick and no "up" kick.
\<close>

theorem ground_without_up_counterexample:
  "analyze_video init_analyzer ''b.mp4'' (bounce_video [(1000, 515)]) 1 =
     Inr (\<lparr>va_video_name = ''b.mp4'', va_total_kicks = 0, va_total_series = 0,
           va_kicks = [ground12], va_series = [], va_fps = 30, va_duration = 13 / 30,
           va_processing_time = 1\<rparr>, bounce_end [ground12])
   \<and> kick_type ground12 = ''ground''
   \<and> \<not> grounds_follow_ups False [ground12]"
proof -
  have "frames_loop (reset_run init_analyzer) 30 1080 0 (cap_frames (bounce_video [(1000, 515)]))
      = bounce_end [ground12]"
    by (simp only: reset_run_init bounce_run_far)
  from analyze_video_eval [OF this, of "[]" "''b.mp4''" 1]
  show ?thesis
    by (simp add: bounce_video_def bounce_end_def ground12_def)
qed

text \<open>
  C2, as stated, fails. On frame 8 an "up" kick is returned; on frame 12 no foot is
  detected, so the debounce test is not reached, and a "ground" kick is returned 4 frames
  after the "up" kick.
\<close>

theorem ground_inside_interval_counterexample:
  "analyze_video init_analyzer ''b.mp4'' (bounce_video [(0, 615)]) 1 =
     Inr (\<lparr>va_video_name = ''b.mp4'', va_total_kicks = 1, va_total_series = 1,
           va_kicks = [up8, ground12],
           va_series = [\<lparr>start_frame = 8, end_frame = 12, kicks_count = 1,
                         duration = 4 / 30\<rparr>],
           va_fps = 30, va_duration = 13 / 30, va_processing_time = 1\<rparr>,
          bounce_end [up8, ground12])
   \<and> frame_number ground12 - frame_number up8 = 4
   \<and> 4 < min_kick_interval
   \<and> \<not> kicks_spaced [up8, ground12]"
proof -
  have "frames_loop (reset_run init_analyzer) 30 1080 0 (cap_frames (bounce_video [(0, 615)]))
      = bounce_end [up8, ground12]"
    by (simp only: reset_run_init bounce_run_near)
  from analyze_video_eval [OF this,
      of "[\<lparr>start_frame = 8, end_frame = 12, kicks_count = 1, duration = 4 / 30\<rparr>]"
        "''b.mp4''" 1]
  show ?thesis
    by (simp add: bounce_video_def bounce_end_def up8_def ground12_def kicks_spaced_def
        min_kick_interval_def)
qed

section \<open>What one frame can do\<close>

lemma detect_kick_outcomes:
  obtains
    (quiet) "detect_kick a ball_pos feet n ts h = (None, a)"
  | (silent) "feet \<noteq> []" "\<not> debounce_blocks a n" "motion_test a"
      "up_confidence a (Min (euclidean ball_pos ` set feet)) < min_confidence_threshold"
      "detect_kick a ball_pos feet n ts h = (None, enter_series a)"
  | (up) "feet \<noteq> []" "\<not> debounce_blocks a n" "motion_test a"
      "min_confidence_threshold \<le> up_confidence a (Min (euclidean ball_pos ` set feet))"
      "detect_kick a ball_pos feet n ts h =
         (Some \<lparr>frame_number = n, timestamp = ts, ball_position = ball_pos,
                 kick_type = ''up'',
                 confidence = up_confidence a (Min (euclidean ball_pos ` set feet))\<rparr>,
          enter_series a)"
  | (ground) "feet = [] \<or> \<not> debounce_blocks a n" "in_juggling_series a"
      "is_ball_near_ground ball_pos h"
      "detect_kick a ball_pos feet n ts h =
         (Some \<lparr>frame_number = n, timestamp = ts, ball_position = ball_pos,
                 kick_type = ''ground'', confidence = 9 / 10\<rparr>,
          a\<lparr>in_juggling_series := False\<rparr>)"
proof -
  have g: ?thesis
    if "detect_kick a ball_pos feet n ts h = ground_check a ball_pos n ts h"
      "feet = [] \<or> \<not> debounce_blocks a n"
  proof (cases "is_ball_near_ground ball_pos h \<and> in_juggling_series a")
    case True
    with that show ?thesis
      by (intro ground) (simp_all add: ground_check_def)
  next
    case False
    with that show ?thesis
      by (intro quiet) (simp add: ground_check_def)
  qed
  show ?thesis
  proof (cases "feet = []")
    case True
    then show ?thesis
      by (intro g) (simp_all add: detect_kick_no_feet)
  next
    case feet: False
    show ?thesis
    proof (cases "debounce_blocks a n")
      case True
      with feet show ?thesis
        by (intro quiet) (rule detect_kick_blocked)
    next
      case free: False
      show ?thesis
      proof (cases "motion_test a")
        case False
        with feet free show ?thesis
          by (intro g) (simp_all add: detect_kick_no_motion)
      next
        case True
        note branch = detect_kick_up_branch [OF feet free True, of ball_pos ts h]
        show ?thesis
        proof (cases "min_confidence_threshold
            \<le> up_confidence a (Min (euclidean ball_pos ` set feet))")
          case True
          with feet free \<open>motion_test a\<close> branch show ?thesis
            by (intro up) simp_all
        next
          case False
          with feet free \<open>motion_test a\<close> branch show ?thesis
            by (intro silent) simp_all
        qed
      qed
    qed
  qed
qed

lemma track_ball_keeps:
  "kicks (track_ball a p) = kicks a"
  "in_juggling_series (track_ball a p) = in_juggling_series a"
  "current_series_kicks (track_ball a p) = current_series_kicks a"
  by (simp_all add: track_ball_def Let_def)

lemma debounce_blocks_track: "debounce_blocks (track_ball a p) n = debounce_blocks a n"
  by (simp add: debounce_blocks_def track_ball_keeps)

lemma process_frame_outcomes:
  obtains
    (same) "process_frame a fps h n fr = a"
  | (tracked) x y c where "ball_detection fr = Some (x, y, c)"
      "process_frame a fps h n fr = track_ball a (x, y)"
  | (entered) x y c where "ball_detection fr = Some (x, y, c)" "feet_detection fr \<noteq> []"
      "\<not> debounce_blocks a n" "motion_test (track_ball a (x, y))"
      "up_confidence (track_ball a (x, y)) (Min (euclidean (x, y) ` set (feet_detection fr)))
         < min_confidence_threshold"
      "process_frame a fps h n fr = enter_series (track_ball a (x, y))"
  | (kicked) x y c k where "ball_detection fr = Some (x, y, c)" "feet_detection fr \<noteq> []"
      "\<not> debounce_blocks a n" "motion_test (track_ball a (x, y))"
      "frame_number k = n" "kick_type k = ''up''"
      "min_confidence_threshold \<le> confidence k"
      "process_frame a fps h n fr
         = (enter_series (track_ball a (x, y)))\<lparr>kicks := kicks a @ [k]\<rparr>"
      "min_confidence_threshold
         \<le> up_confidence (track_ball a (x, y))
             (Min (euclidean (x, y) ` set (feet_detection fr)))"
  | (grounded) x y c k where "ball_detection fr = Some (x, y, c)"
      "feet_detection fr = [] \<or> \<not> debounce_blocks a n" "in_juggling_series a"
      "frame_number k = n" "kick_type k = ''ground''"
      "process_frame a fps h n fr
         = (track_ball a (x, y))\<lparr>in_juggling_series := False, kicks := kicks a @ [k]\<rparr>"
proof (cases "n mod frame_skip \<noteq> 0 \<or> ball_detection fr = None")
  case True
  then show ?thesis
    by (intro same) (auto simp: process_frame_def)
next
  case False
  then obtain x y c where b: "ball_detection fr = Some (x, y, c)" and m: "n mod frame_skip = 0"
    by (cases "ball_detection fr") auto
  show ?thesis
  proof (cases "slow_movement a (x, y)")
    case True
    with b show ?thesis
      by (intro same) (simp add: process_frame_def)
  next
    case moving: False
    let ?a1 = "track_ball a (x, y)"
    show ?thesis
    proof (cases "3 \<le> length (velocity_history ?a1)")
      case False
      with b m moving have "process_frame a fps h n fr = ?a1"
        by (simp add: process_frame_def Let_def)
      with b show ?thesis by (rule tracked)
    next
      case True
      have pf: "process_frame a fps h n fr =
          (case detect_kick ?a1 (x, y) (feet_detection fr) n (real_of_int n / fps) h of
             (Some kick, a2) \<Rightarrow> a2\<lparr>kicks := kicks a2 @ [kick]\<rparr>
           | (None, a2) \<Rightarrow> a2)"
        using b m moving True by (simp add: process_frame_def Let_def)
      show ?thesis
      proof (cases rule: detect_kick_outcomes [where a = ?a1 and ball_pos = "(x, y)"
            and feet = "feet_detection fr" and n = n and ts = "real_of_int n / fps" and h = h])
        case quiet
        with pf have "process_frame a fps h n fr = ?a1" by simp
        with b show ?thesis by (rule tracked)
      next
        case silent
        from silent(5) pf have e: "process_frame a fps h n fr = enter_series ?a1" by simp
        from silent(2) have d: "\<not> debounce_blocks a n" by (simp add: debounce_blocks_track)
        from b silent(1) d silent(3,4) e show ?thesis by (rule entered)
      next
        case up
        let ?k = "\<lparr>frame_number = n, timestamp = real_of_int n / fps,
            ball_position = (x, y), kick_type = ''up'',
            confidence = up_confidence ?a1
              (Min (euclidean (x, y) ` set (feet_detection fr)))\<rparr>"
        from up(5) pf
        have e: "process_frame a fps h n fr = (enter_series ?a1)\<lparr>kicks := kicks a @ [?k]\<rparr>"
          by (simp add: enter_series_def track_ball_keeps)
        from up(2) have d: "\<not> debounce_blocks a n" by (simp add: debounce_blocks_track)
        have fn: "frame_number ?k = n" and kt: "kick_type ?k = ''up''" by simp_all
        from up(4) have cf: "min_confidence_threshold \<le> confidence ?k" by simp
        from b up(1) d up(3) fn kt cf e up(4) show ?thesis by (rule kicked)
      next
        case ground
        let ?k = "\<lparr>frame_number = n, timestamp = real_of_int n / fps,
            ball_position = (x, y), kick_type = ''ground'', confidence = 9 / 10\<rparr>"
        from ground(4) pf
        have e: "process_frame a fps h n fr
            = ?a1\<lparr>in_juggling_series := False, kicks := kicks a @ [?k]\<rparr>"
          by (simp add: track_ball_keeps)
        from ground(1) have d: "feet_detection fr = [] \<or> \<not> debounce_blocks a n"
          by (simp add: debounce_blocks_track)
        from ground(2) have s: "in_juggling_series a" by (simp add: track_ball_keeps)
        have fn: "frame_number ?k = n" and kt: "kick_type ?k = ''ground''" by simp_all
        from b d s fn kt e show ?thesis by (rule grounded)
      qed
    qed
  qed
qed

section \<open>The debounce interval over a run\<close>

lemma spaced_last:
  "sorted_wrt (spaced_after frames) ks \<Longrightarrow> x \<in> set ks \<Longrightarrow>
   frame_number x \<le> frame_number (last ks)"
proof (induction ks)
  case Nil
  then show ?case by simp
next
  case (Cons k ks)
  show ?case
  proof (cases "ks = []")
    case True
    with Cons.prems show ?thesis by simp
  next
    case False
    then have l: "last ks \<in> set ks" by simp
    from Cons.prems(1) have s: "sorted_wrt (spaced_after frames) ks"
      and h0: "\<forall>y \<in> set ks. spaced_after frames k y"
      by simp_all
    from h0 have h: "\<forall>y \<in> set ks. frame_number k < frame_number y"
      by (simp add: spaced_after_def)
    show ?thesis
    proof (cases "x = k")
      case True
      from h l have "frame_number k < frame_number (last ks)" by blast
      with True False show ?thesis by simp
    next
      case neq: False
      with Cons.prems(2) have "x \<in> set ks" by simp
      with Cons.IH [OF s] False show ?thesis by simp
    qed
  qed
qed

lemma kicks_inv_mono: "kicks_inv frames n ks \<Longrightarrow> n \<le> n' \<Longrightarrow> kicks_inv frames n' ks"
  by (fastforce simp: kicks_inv_def)

lemma kicks_inv_snoc:
  assumes "kicks_inv frames n ks" and "0 \<le> n" and "frame_number k = n"
    and "kick_type k = ''up'' \<or> feet_detection (frames ! nat n) \<noteq> []
         \<Longrightarrow> \<not> debounce_blocks a n"
    and "kicks a = ks"
  shows "kicks_inv frames (n + 1) (ks @ [k])"
proof -
  from assms(1) have bound: "\<forall>x \<in> set ks. 0 \<le> frame_number x \<and> frame_number x < n"
    and s: "sorted_wrt (spaced_after frames) ks"
    by (simp_all add: kicks_inv_def)
  have "spaced_after frames x k" if x: "x \<in> set ks" for x
  proof -
    have less: "frame_number x < frame_number k"
      using bound x assms(3) by simp
    have "min_kick_interval \<le> frame_number k - frame_number x"
      if "kick_type k = ''up'' \<or> feet_detection (frames ! nat (frame_number k)) \<noteq> []"
    proof -
      from that assms(3,4) have "\<not> debounce_blocks a n" by simp
      moreover from x assms(5) have "kicks a \<noteq> []" by auto
      ultimately have "min_kick_interval \<le> n - frame_number (last ks)"
        using assms(5) by (simp add: debounce_blocks_def)
      with spaced_last [OF s x] assms(3) show ?thesis by simp
    qed
    with less show ?thesis by (simp add: spaced_after_def)
  qed
  with bound s assms(2,3) show ?thesis
    by (auto simp: kicks_inv_def sorted_wrt_append)
qed

lemma process_frame_kicks_inv:
  assumes "kicks_inv frames n (kicks a)" and "0 \<le> n" and "fr = frames ! nat n"
  shows "kicks_inv frames (n + 1) (kicks (process_frame a fps h n fr))"
proof (cases rule: process_frame_outcomes [where a = a and fps = fps and h = h and n = n
      and fr = fr])
  case same
  with assms(1) show ?thesis by (simp add: kicks_inv_mono)
next
  case (tracked x y c)
  with assms(1) show ?thesis by (simp add: kicks_inv_mono track_ball_keeps)
next
  case (entered x y c)
  with assms(1) show ?thesis
    by (simp add: kicks_inv_mono track_ball_keeps enter_series_def)
next
  case (kicked x y c k)
  have "kicks_inv frames (n + 1) (kicks a @ [k])"
    using assms(1,2) kicked(5) _ refl
    by (rule kicks_inv_snoc) (rule kicked(3))
  with kicked(8) show ?thesis by simp
next
  case (grounded x y c k)
  have "kicks_inv frames (n + 1) (kicks a @ [k])"
    using assms(1,2) grounded(4) _ refl
  proof (rule kicks_inv_snoc)
    assume "kick_type k = ''up'' \<or> feet_detection (frames ! nat n) \<noteq> []"
    with grounded(2,5) assms(3) show "\<not> debounce_blocks a n" by auto
  qed
  with grounded(6) show ?thesis by simp
qed

lemma frames_loop_kicks_inv:
  assumes "kicks_inv frames n (kicks a)" and "0 \<le> n" and "drop (nat n) frames = rest"
  shows "kicks_inv frames (n + int (length rest)) (kicks (frames_loop a fps h n rest))"
  using assms
proof (induction rest arbitrary: a n)
  case Nil
  then show ?case by simp
next
  case (Cons fr rest)
  from Cons.prems(3) have fr: "fr = frames ! nat n"
    by (simp add: nth_via_drop)
  have "drop (Suc (nat n)) frames = tl (drop (nat n) frames)"
    by (simp add: drop_Suc tl_drop)
  with Cons.prems(2,3) have d: "drop (nat (n + 1)) frames = rest"
    by (simp add: nat_add_distrib)
  have "kicks_inv frames (n + 1 + int (length rest))
      (kicks (frames_loop (process_frame a fps h n fr) fps h (n + 1) rest))"
    using process_frame_kicks_inv [OF Cons.prems(1,2) fr] _ d
    by (rule Cons.IH) (use Cons.prems(2) in simp)
  then show ?case by (simp add: ac_simps)
qed

lemma analyze_video_kicks:
  assumes "analyze_video a name video elapsed = Inr (r, a')"
  shows "va_kicks r = kicks (frames_loop (reset_run a)
      (if cap_fps video \<le> 0 then 30 else cap_fps video) (cap_frame_height video) 0
      (cap_frames video))"
  using assms by (auto simp: analyze_video_def Let_def split: sum.splits)

text \<open>
  C2, amended. The kicks of a run carry the numbers of frames of the video, in strictly
  increasing order, and every "up" kick, and every "ground" kick of a frame on which a
  foot was detected, is at least \<open>min_kick_interval\<close> frames after every earlier kick.
\<close>

theorem kicks_debounced_when_foot_seen:
  assumes "analyze_video a name video elapsed = Inr (r, a')"
  shows
    "(\<forall>k \<in> set (va_kicks r).
        0 \<le> frame_number k \<and> nat (frame_number k) < length (cap_frames video))
     \<and> (\<forall>j < length (va_kicks r). \<forall>i < j.
          frame_number (va_kicks r ! i) < frame_number (va_kicks r ! j)
          \<and> (kick_type (va_kicks r ! j) = ''up''
              \<or> feet_detection (cap_frames video ! nat (frame_number (va_kicks r ! j))) \<noteq> []
              \<longrightarrow> min_kick_interval
                    \<le> frame_number (va_kicks r ! j) - frame_number (va_kicks r ! i)))"
proof -
  define fps where "fps = (if cap_fps video \<le> 0 then 30 else cap_fps video)"
  define ks where "ks = kicks (frames_loop (reset_run a) fps (cap_frame_height video) 0
      (cap_frames video))"
  have eq: "va_kicks r = ks"
    unfolding ks_def fps_def by (rule analyze_video_kicks [OF assms])
  have "kicks_inv (cap_frames video) 0 (kicks (reset_run a))"
    by (simp add: kicks_inv_def reset_run_def)
  then have "kicks_inv (cap_frames video) (0 + int (length (cap_frames video))) ks"
    unfolding ks_def by (rule frames_loop_kicks_inv) simp_all
  then have bound: "\<forall>k \<in> set ks. 0 \<le> frame_number k
        \<and> frame_number k < int (length (cap_frames video))"
    and s: "sorted_wrt (spaced_after (cap_frames video)) ks"
    by (simp_all add: kicks_inv_def)
  from bound have b: "\<forall>k \<in> set ks. 0 \<le> frame_number k
      \<and> nat (frame_number k) < length (cap_frames video)"
    by auto
  from s have "\<forall>j < length ks. \<forall>i < j. spaced_after (cap_frames video) (ks ! i) (ks ! j)"
    by (simp add: sorted_wrt_iff_nth_less)
  with b show ?thesis
    unfolding eq spaced_after_def by blast
qed

lemma late_ground_run:
  "frames_loop init_analyzer 30 1080 0 (cap_frames late_ground_video)
     = bounce_end [up8, ground16]"
proof -
  let ?pre = "[ball_frame 0 500 [], no_ball, no_ball, no_ball,
       ball_frame 0 525 [], no_ball, no_ball, no_ball, ball_frame 0 515 [(0, 615)]]"
  let ?suf = "[no_ball, no_ball, no_ball, no_ball, no_ball, no_ball, no_ball,
       ball_frame 0 1000 [(0, 1000)]]"
  let ?s = "\<lparr>ball_history = [(0, 500), (0, 525), (0, 515)],
      velocity_history = [(0, 0), (0, 25), (0, - 10)],
      kicks = [up8], current_series_kicks = 1, in_juggling_series = True,
      last_ball_position = Some (0, 515)\<rparr>"
  let ?t = "\<lparr>ball_history = [(0, 500), (0, 525), (0, 515), (0, 1000)],
      velocity_history = [(0, 0), (0, 25), (0, - 10), (0, 485)],
      kicks = [up8], current_series_kicks = 1, in_juggling_series = True,
      last_ball_position = Some (0, 1000)\<rparr>"
  have frames: "cap_frames late_ground_video = ?pre @ ?suf"
    by (simp add: late_ground_video_def)
  have "frames_loop init_analyzer 30 1080 0 (?pre @ [])
      = frames_loop (case Some up8 of Some kick \<Rightarrow> (enter_series bounce_state)
            \<lparr>kicks := kicks (enter_series bounce_state) @ [kick]\<rparr>
          | None \<Rightarrow> enter_series bounce_state) 30 1080 9 []"
    using bounce_prefix [OF bounce_detect_near, of "[]"] by (simp only: append_Cons append_Nil)
  also have "\<dots> = ?s"
    by (simp add: enter_series_def bounce_state_def)
  finally have pre: "frames_loop init_analyzer 30 1080 0 ?pre = ?s"
    by (simp only: append_Nil2)
  have t: "track_ball ?s (0, 1000) = ?t"
    by (simp add: track_fourth)
  have free: "\<not> debounce_blocks ?t 16"
    by (simp add: debounce_blocks_def up8_def min_kick_interval_def)
  have still: "\<not> motion_test ?t"
    by (simp add: motion_test_def calculate_ball_velocity_def)
  have g: "detect_kick ?t (0, 1000) [(0, 1000)] 16 (16 / 30) 1080
      = (Some ground16, ?t\<lparr>in_juggling_series := False\<rparr>)"
    using detect_kick_no_motion [of "[(0, 1000)]" ?t 16 "(0, 1000)" "16 / 30" 1080] free still
    by (simp add: ground_check_def is_ball_near_ground_def ground_threshold_def ground16_def)
  have last: "process_frame ?s 30 1080 16 (ball_frame 0 1000 [(0, 1000)])
      = bounce_end [up8, ground16]"
    using process_frame_detect [of 16 "ball_frame 0 1000 [(0, 1000)]" 0 1000 "9 / 10" ?s
        30 1080 "Some ground16" "?t\<lparr>in_juggling_series := False\<rparr>"] g
    by (simp add: t ball_frame_def slow_movement_same_x bounce_end_def)
  have suf: "frames_loop ?s 30 1080 9 ?suf = bounce_end [up8, ground16]"
  proof -
    have n: "process_frame b 30 1080 k no_ball = b" for b k
      by (simp add: process_frame_def no_ball_def)
    show ?thesis
      by (simp add: n last)
  qed
  have "frames_loop init_analyzer 30 1080 0 (?pre @ ?suf)
      = frames_loop (frames_loop init_analyzer 30 1080 0 ?pre) 30 1080
          (0 + int (length ?pre)) ?suf"
    by (rule frames_loop_append)
  also have "\<dots> = frames_loop ?s 30 1080 9 ?suf"
    by (simp only: pre) simp
  also note suf
  finally show ?thesis
    by (simp only: frames)
qed

theorem kicks_debounced_when_foot_seen_witness:
  "analyze_video init_analyzer ''c.mp4'' late_ground_video 1 =
     Inr (\<lparr>va_video_name = ''c.mp4'', va_total_kicks = 1, va_total_series = 1,
           va_kicks = [up8, ground16],
           va_series = [\<lparr>start_frame = 8, end_frame = 16, kicks_count = 1,
                         duration = 8 / 30\<rparr>],
           va_fps = 30, va_duration = 17 / 30, va_processing_time = 1\<rparr>,
          bounce_end [up8, ground16])
   \<and> kick_type ground16 = ''ground''
   \<and> feet_detection (cap_frames late_ground_video ! nat (frame_number ground16)) \<noteq> []
   \<and> frame_number up8 < frame_number ground16
   \<and> min_kick_interval \<le> frame_number ground16 - frame_number up8"
proof -
  let ?r = "\<lparr>va_video_name = ''c.mp4'', va_total_kicks = 1, va_total_series = 1,
           va_kicks = [up8, ground16],
           va_series = [\<lparr>start_frame = 8, end_frame = 16, kicks_count = 1,
                         duration = 8 / 30\<rparr>],
           va_fps = 30, va_duration = 17 / 30, va_processing_time = 1\<rparr>"
  have "frames_loop (reset_run init_analyzer) 30 1080 0 (cap_frames late_ground_video)
      = bounce_end [up8, ground16]"
    by (simp only: reset_run_init late_ground_run)
  from analyze_video_eval [OF this,
      of "[\<lparr>start_frame = 8, end_frame = 16, kicks_count = 1, duration = 8 / 30\<rparr>]"
        "''c.mp4''" 1]
  have run: "analyze_video init_analyzer ''c.mp4'' late_ground_video 1
      = Inr (?r, bounce_end [up8, ground16])"
    by (simp add: late_ground_video_def bounce_end_def up8_def ground16_def)
  have feet: "feet_detection (cap_frames late_ground_video ! nat (frame_number ground16)) \<noteq> []"
    by (simp add: late_ground_video_def ground16_def ball_frame_def)
  from kicks_debounced_when_foot_seen [OF run]
  have "\<forall>j < length (va_kicks ?r). \<forall>i < j.
          frame_number (va_kicks ?r ! i) < frame_number (va_kicks ?r ! j)
          \<and> (kick_type (va_kicks ?r ! j) = ''up''
              \<or> feet_detection (cap_frames late_ground_video
                    ! nat (frame_number (va_kicks ?r ! j))) \<noteq> []
              \<longrightarrow> min_kick_interval
                    \<le> frame_number (va_kicks ?r ! j) - frame_number (va_kicks ?r ! i))"
    by blast
  then have "frame_number (va_kicks ?r ! 0) < frame_number (va_kicks ?r ! 1)
          \<and> (kick_type (va_kicks ?r ! 1) = ''up''
              \<or> feet_detection (cap_frames late_ground_video
                    ! nat (frame_number (va_kicks ?r ! 1))) \<noteq> []
              \<longrightarrow> min_kick_interval
                    \<le> frame_number (va_kicks ?r ! 1) - frame_number (va_kicks ?r ! 0))"
    by (elim allE [where x = "1 :: nat"] allE [where x = "0 :: nat"] impE) simp_all
  with feet have "frame_number up8 < frame_number ground16
      \<and> min_kick_interval \<le> frame_number ground16 - frame_number up8"
    by simp
  with run feet show ?thesis
    by (simp add: ground16_def)
qed

section \<open>Ground kicks and the series flag over a run\<close>

lemma enter_series_changes:
  "in_juggling_series (enter_series a) \<noteq> in_juggling_series a
   \<or> current_series_kicks (enter_series a) \<noteq> current_series_kicks a"
  by (simp add: enter_series_def)

lemma process_frame_effect:
  fixes a fps h n fr
  defines "a' \<equiv> process_frame a fps h n fr"
  shows
    "(frame_effect_of a a' = Quiet \<longrightarrow>
        in_juggling_series a' = in_juggling_series a \<and> kicks a' = kicks a)
     \<and> (frame_effect_of a a' = SeriesEntered \<longrightarrow>
          in_juggling_series a' \<and> kicks a' = kicks a
          \<and> (\<exists>x y c. ball_detection fr = Some (x, y, c) \<and> feet_detection fr \<noteq> []
                \<and> \<not> debounce_blocks a n \<and> motion_test (track_ball a (x, y))
                \<and> up_confidence (track_ball a (x, y))
                     (Min (euclidean (x, y) ` set (feet_detection fr)))
                   < min_confidence_threshold))
     \<and> (frame_effect_of a a' = UpKick \<longrightarrow>
          in_juggling_series a' \<and> (\<exists>k. kicks a' = kicks a @ [k] \<and> kick_type k = ''up'')
          \<and> (\<exists>x y c. ball_detection fr = Some (x, y, c) \<and> feet_detection fr \<noteq> []
                \<and> \<not> debounce_blocks a n \<and> motion_test (track_ball a (x, y))
                \<and> min_confidence_threshold
                   \<le> up_confidence (track_ball a (x, y))
                       (Min (euclidean (x, y) ` set (feet_detection fr)))))
     \<and> (frame_effect_of a a' = GroundKick \<longrightarrow>
          in_juggling_series a \<and> \<not> in_juggling_series a'
          \<and> (\<exists>k. kicks a' = kicks a @ [k] \<and> kick_type k = ''ground''))"
proof (cases rule: process_frame_outcomes [where a = a and fps = fps and h = h and n = n
      and fr = fr])
  case same
  then have "a' = a" by (simp add: a'_def)
  then show ?thesis by (simp add: frame_effect_of_def)
next
  case (tracked x y c)
  then have "a' = track_ball a (x, y)" by (simp add: a'_def)
  then show ?thesis by (simp add: frame_effect_of_def track_ball_keeps)
next
  case (entered x y c)
  then have e: "a' = enter_series (track_ball a (x, y))" by (simp add: a'_def)
  have k: "kicks a' = kicks a" and s: "in_juggling_series a'"
    by (simp_all add: e enter_series_def track_ball_keeps)
  have "frame_effect_of a a' = SeriesEntered"
    using enter_series_changes [of "track_ball a (x, y)"]
    by (simp add: frame_effect_of_def k) (simp add: e track_ball_keeps)
  with k s entered(1-5) show ?thesis by auto
next
  case (kicked x y c k)
  then have e: "a' = (enter_series (track_ball a (x, y)))\<lparr>kicks := kicks a @ [k]\<rparr>"
    by (simp add: a'_def)
  have ks: "kicks a' = kicks a @ [k]" and s: "in_juggling_series a'"
    by (simp_all add: e enter_series_def)
  have "frame_effect_of a a' = UpKick"
    using kicked(6) by (simp add: frame_effect_of_def ks)
  with ks s kicked(1-4,6,9) show ?thesis by auto
next
  case (grounded x y c k)
  then have e: "a' = (track_ball a (x, y))\<lparr>in_juggling_series := False,
      kicks := kicks a @ [k]\<rparr>"
    by (simp add: a'_def)
  have ks: "kicks a' = kicks a @ [k]" and s: "\<not> in_juggling_series a'"
    by (simp_all add: e)
  have "frame_effect_of a a' = GroundKick"
    using grounded(5) by (simp add: frame_effect_of_def ks)
  with ks s grounded(3,5) show ?thesis by auto
qed

lemma frames_effects_grounds:
  "grounds_follow_entries (in_juggling_series a) (frames_effects a fps h n frames)"
proof (induction frames arbitrary: a n)
  case Nil
  show ?case by simp
next
  case (Cons fr frames)
  let ?a' = "process_frame a fps h n fr"
  note ih = Cons.IH [of ?a' "n + 1"]
  show ?case
    using process_frame_effect [of a fps h n fr] ih
    by (cases "frame_effect_of a ?a'") simp_all
qed

lemma frames_effects_kicks:
  "map kick_type (kicks (frames_loop a fps h n frames))
     = map kick_type (kicks a) @ concat (map effect_kick (frames_effects a fps h n frames))"
proof (induction frames arbitrary: a n)
  case Nil
  show ?case by simp
next
  case (Cons fr frames)
  let ?a' = "process_frame a fps h n fr"
  have "map kick_type (kicks ?a')
      = map kick_type (kicks a) @ effect_kick (frame_effect_of a ?a')"
    using process_frame_effect [of a fps h n fr]
    by (cases "frame_effect_of a ?a'") auto
  with Cons.IH [of ?a' "n + 1"] show ?case by simp
qed

text \<open>
  C1, amended. Over a run, every recorded "ground" kick has, since the last recorded
  "ground" kick or since the start of the run, a frame on which \<open>detect_kick\<close> passed
  the motion test with a foot detected and the debounce interval elapsed, and so set
  \<open>in_juggling_series\<close>. That frame recorded an "up" kick when its confidence reached
  \<open>min_confidence_threshold\<close> and none when it did not. The kicks recorded by the run
  are those of its frames, in order.
\<close>

theorem ground_follows_series_entry:
  "grounds_follow_entries False (frames_effects (reset_run a) fps h 0 frames)
   \<and> map kick_type (kicks (frames_loop (reset_run a) fps h 0 frames))
       = concat (map effect_kick (frames_effects (reset_run a) fps h 0 frames))
   \<and> (\<forall>b n fr. frame_effect_of b (process_frame b fps h n fr) = SeriesEntered \<longrightarrow>
         (\<exists>x y c. ball_detection fr = Some (x, y, c) \<and> feet_detection fr \<noteq> []
            \<and> \<not> debounce_blocks b n \<and> motion_test (track_ball b (x, y))
            \<and> up_confidence (track_ball b (x, y))
                 (Min (euclidean (x, y) ` set (feet_detection fr)))
               < min_confidence_threshold))
   \<and> (\<forall>b n fr. frame_effect_of b (process_frame b fps h n fr) = UpKick \<longrightarrow>
         (\<exists>x y c. ball_detection fr = Some (x, y, c) \<and> feet_detection fr \<noteq> []
            \<and> \<not> debounce_blocks b n \<and> motion_test (track_ball b (x, y))
            \<and> min_confidence_threshold
               \<le> up_confidence (track_ball b (x, y))
                   (Min (euclidean (x, y) ` set (feet_detection fr)))))"
proof (intro conjI allI impI)
  have "\<not> in_juggling_series (reset_run a)"
    by (simp add: reset_run_def)
  with frames_effects_grounds [of "reset_run a" fps h 0 frames]
  show "grounds_follow_entries False (frames_effects (reset_run a) fps h 0 frames)"
    by simp
next
  have "kicks (reset_run a) = []"
    by (simp add: reset_run_def)
  with frames_effects_kicks [of "reset_run a" fps h 0 frames]
  show "map kick_type (kicks (frames_loop (reset_run a) fps h 0 frames))
      = concat (map effect_kick (frames_effects (reset_run a) fps h 0 frames))"
    by simp
next
  fix b n fr
  assume "frame_effect_of b (process_frame b fps h n fr) = SeriesEntered"
  with process_frame_effect [of b fps h n fr]
  show "\<exists>x y c. ball_detection fr = Some (x, y, c) \<and> feet_detection fr \<noteq> []
      \<and> \<not> debounce_blocks b n \<and> motion_test (track_ball b (x, y))
      \<and> up_confidence (track_ball b (x, y))
           (Min (euclidean (x, y) ` set (feet_detection fr)))
         < min_confidence_threshold"
    by blast
next
  fix b n fr
  assume "frame_effect_of b (process_frame b fps h n fr) = UpKick"
  with process_frame_effect [of b fps h n fr]
  show "\<exists>x y c. ball_detection fr = Some (x, y, c) \<and> feet_detection fr \<noteq> []
      \<and> \<not> debounce_blocks b n \<and> motion_test (track_ball b (x, y))
      \<and> min_confidence_threshold
         \<le> up_confidence (track_ball b (x, y))
             (Min (euclidean (x, y) ` set (feet_detection fr)))"
    by blast
qed

lemma fall_frame8:
  "process_frame fall_state 30 1080 8 (ball_frame 0 515 [(1000, 515)])
     = enter_series bounce_state"
proof -
  have t: "track_ball fall_state (0, 515) = bounce_state"
    by (simp add: fall_state_def track_third bounce_state_def)
  have l: "last_ball_position fall_state = Some (0, 525)"
    by (simp add: fall_state_def)
  have m: "\<not> slow_movement fall_state (0, 515)"
    using slow_movement_same_x [OF l, of 515] by simp
  have v: "3 \<le> length (velocity_history (track_ball fall_state (0, 515)))"
    by (simp add: t bounce_state_def)
  have d: "detect_kick (track_ball fall_state (0, 515)) (0, 515)
        (feet_detection (ball_frame 0 515 [(1000, 515)])) 8 (real_of_int 8 / 30) 1080
      = (None, enter_series bounce_state)"
    using bounce_detect_far by (simp add: t ball_frame_def)
  have b: "ball_detection (ball_frame 0 515 [(1000, 515)]) = Some (0, 515, 9 / 10)"
    by (simp add: ball_frame_def)
  have "(8 :: int) mod 4 = 0" by simp
  from process_frame_detect [OF this b m v d] show ?thesis
    by simp
qed

theorem ground_follows_series_entry_witness:
  "grounds_follow_entries False
     (frames_effects (reset_run init_analyzer) 30 1080 0 (cap_frames (bounce_video [(1000, 515)])))
   \<and> concat (map effect_kick
       (frames_effects (reset_run init_analyzer) 30 1080 0
          (cap_frames (bounce_video [(1000, 515)]))))
       = [''ground'']
   \<and> frame_effect_of fall_state
       (process_frame fall_state 30 1080 8 (ball_frame 0 515 [(1000, 515)])) = SeriesEntered
   \<and> motion_test (track_ball fall_state (0, 515))
   \<and> up_confidence (track_ball fall_state (0, 515))
        (Min (euclidean (0, 515) ` set [(1000, 515)])) < min_confidence_threshold"
proof -
  let ?fr = "ball_frame 0 515 [(1000, 515)]"
  note inst = ground_follows_series_entry [of init_analyzer 30 1080
      "cap_frames (bounce_video [(1000, 515)])"]
  have run: "map kick_type (kicks (frames_loop (reset_run init_analyzer) 30 1080 0
      (cap_frames (bounce_video [(1000, 515)])))) = [''ground'']"
    by (simp only: reset_run_init bounce_run_far) (simp add: bounce_end_def ground12_def)
  have eff: "frame_effect_of fall_state (process_frame fall_state 30 1080 8 ?fr) = SeriesEntered"
    by (simp only: fall_frame8)
      (simp add: frame_effect_of_def enter_series_def bounce_state_def fall_state_def)
  from inst have "frame_effect_of fall_state (process_frame fall_state 30 1080 8 ?fr)
        = SeriesEntered \<longrightarrow>
      (\<exists>x y c. ball_detection ?fr = Some (x, y, c) \<and> feet_detection ?fr \<noteq> []
         \<and> \<not> debounce_blocks fall_state 8 \<and> motion_test (track_ball fall_state (x, y))
         \<and> up_confidence (track_ball fall_state (x, y))
              (Min (euclidean (x, y) ` set (feet_detection ?fr)))
            < min_confidence_threshold)"
    by blast
  with eff have low: "motion_test (track_ball fall_state (0, 515))
      \<and> up_confidence (track_ball fall_state (0, 515))
           (Min (euclidean (0, 515) ` set [(1000, 515)])) < min_confidence_threshold"
    by (auto simp: ball_frame_def)
  from inst run have "grounds_follow_entries False
       (frames_effects (reset_run init_analyzer) 30 1080 0
          (cap_frames (bounce_video [(1000, 515)])))
     \<and> concat (map effect_kick
         (frames_effects (reset_run init_analyzer) 30 1080 0
            (cap_frames (bounce_video [(1000, 515)]))))
       = [''ground'']"
    by simp
  with eff low show ?thesis
    by (intro conjI) simp_all
qed

end
